theory Spec2Isabelle
  imports Main "HOL-Library.Word" "HOL-Library.List_Lexorder"
begin

section \<open>JavaScript strings\<close>

text \<open>
  A JavaScript string is a sequence of UTF-16 code units. Regular expressions without
  the \<open>u\<close> flag, \<open>length\<close>, \<open>startsWith\<close>, \<open>includes\<close> and \<open>trim\<close> all work on
  code units, so a string is a list of 16-bit words. Literals of the source are written
  with \<open>js\<close>; the accented letters of the Portuguese messages are Latin-1 code points
  and are given by their code (\<open>CHR 0xE7\<close> is c-cedilla, \<open>CHR 0xE3\<close> is a-tilde).
\<close>

type_synonym jsstring = "16 word list"

definition js :: "string \<Rightarrow> jsstring" where
  "js s = map (\<lambda>c. word_of_nat (of_char c)) s"

text \<open>\<open>s.startsWith(p)\<close> and \<open>s.includes(p)\<close>.\<close>

definition startsWith :: "jsstring \<Rightarrow> jsstring \<Rightarrow> bool" where
  "startsWith s p = (take (length p) s = p)"

fun includesStr :: "jsstring \<Rightarrow> jsstring \<Rightarrow> bool" where
  "includesStr [] p = (p = [])"
| "includesStr (c # cs) p = (startsWith (c # cs) p \<or> includesStr cs p)"

section \<open>Cleaning of OCR output (cleanOCRText in queue.ts, src/unnamed/part_003)\<close>

text \<open>
  The class \<open>\s\<close> of a JavaScript regular expression: the white-space code points and
  the line terminators. \<open>String.prototype.trim\<close> strips exactly the same set.
\<close>

definition isSpace :: "16 word \<Rightarrow> bool" where
  "isSpace c =
     (c = 0x9 \<or> c = 0xA \<or> c = 0xB \<or> c = 0xC \<or> c = 0xD \<or> c = 0x20 \<or> c = 0xA0 \<or>
      c = 0x1680 \<or> (0x2000 \<le> c \<and> c \<le> 0x200A) \<or> c = 0x2028 \<or> c = 0x2029 \<or>
      c = 0x202F \<or> c = 0x205F \<or> c = 0x3000 \<or> c = 0xFEFF)"

text \<open>The class \<open>\w\<close>: ASCII letters, digits and the underscore.\<close>

definition isWordChar :: "16 word \<Rightarrow> bool" where
  "isWordChar c =
     ((0x30 \<le> c \<and> c \<le> 0x39) \<or> (0x41 \<le> c \<and> c \<le> 0x5A) \<or> c = 0x5F \<or>
      (0x61 \<le> c \<and> c \<le> 0x7A))"

text \<open>
  The punctuation listed in the second regular expression,
  \<open>. , ! ? ; : - ( ) [ ] { }\<close>, and its accented letters, in the order of the source.
\<close>

definition punctuation :: "16 word list" where
  "punctuation = js ''.,!?;:-()[]{}''"

definition accented :: "16 word list" where
  "accented =
     [0xE1, 0xE9, 0xED, 0xF3, 0xFA, 0xE0, 0xE8, 0xEC, 0xF2, 0xF9, 0xE2, 0xEA, 0xEE, 0xF4,
      0xFB, 0xE3, 0xF5, 0xE7, 0xC1, 0xC9, 0xCD, 0xD3, 0xDA, 0xC0, 0xC8, 0xCC, 0xD2, 0xD9,
      0xC2, 0xCA, 0xCE, 0xD4, 0xDB, 0xC3, 0xD5, 0xC7]"

text \<open>A character the second \<open>replace\<close> keeps: one inside the negated class.\<close>

definition keptChar :: "16 word \<Rightarrow> bool" where
  "keptChar c =
     (isWordChar c \<or> isSpace c \<or> c \<in> set punctuation \<or> c \<in> set accented)"

text \<open>
  \<open>blankRunEnd cs\<close> matches \<open>\s*\n\<close> at the front of \<open>cs\<close> the way the backtracking
  matcher does: \<open>\s*\<close> is greedy, so the match ends at the last line feed of the
  white-space run. The result is the text after the match.
\<close>

fun blankRunEnd :: "jsstring \<Rightarrow> jsstring option" where
  "blankRunEnd [] = None"
| "blankRunEnd (c # cs) =
     (if isSpace c
      then (case blankRunEnd cs of
              Some r \<Rightarrow> Some r
            | None \<Rightarrow> (if c = 0xA then Some cs else None))
      else None)"

text \<open>\<open>.replace(/\n\s*\n/g, '\n')\<close>: every match, leftmost first, becomes one line feed.\<close>

function removeBlankLines :: "jsstring \<Rightarrow> jsstring" where
  "removeBlankLines [] = []"
| "removeBlankLines (c # cs) =
     (if c = 0xA
      then (case blankRunEnd cs of
              Some r \<Rightarrow> 0xA # removeBlankLines r
            | None \<Rightarrow> c # removeBlankLines cs)
      else c # removeBlankLines cs)"
  by pat_completeness auto
termination
proof (relation "measure length")
  show "wf (measure length)"
    by simp
next
  fix c cs r
  assume "blankRunEnd cs = Some r"
  then have "length r < length cs"
    by (induction cs arbitrary: r) (auto split: if_splits option.splits)
  then show "(r, c # cs) \<in> measure length"
    by simp
next
  fix c cs
  show "(cs, c # cs) \<in> measure length"
    by simp
next
  fix c cs
  show "(cs, c # cs) \<in> measure length"
    by simp
qed

text \<open>\<open>.replace(/[^\w\s\.,!?;:\-()[\]{}...]/g, '')\<close>.\<close>

definition removeDisallowed :: "jsstring \<Rightarrow> jsstring" where
  "removeDisallowed s = filter keptChar s"

text \<open>\<open>.replace(/\s+/g, ' ')\<close>: every maximal white-space run becomes one space.\<close>

function collapseSpaces :: "jsstring \<Rightarrow> jsstring" where
  "collapseSpaces [] = []"
| "collapseSpaces (c # cs) =
     (if isSpace c then 0x20 # collapseSpaces (dropWhile isSpace cs)
      else c # collapseSpaces cs)"
  by pat_completeness auto
termination
  by (relation "measure length") (auto simp: length_dropWhile_le le_imp_less_Suc)

text \<open>\<open>.trim()\<close>.\<close>

definition trim :: "jsstring \<Rightarrow> jsstring" where
  "trim s = rev (dropWhile isSpace (rev (dropWhile isSpace s)))"

definition cleanOCRText :: "jsstring \<Rightarrow> jsstring" where
  "cleanOCRText t = trim (collapseSpaces (removeDisallowed (removeBlankLines t)))"

text \<open>
  The shape of a cleaned text: the only white-space character is the space, and a space
  is followed by a character that is not white space.
\<close>

fun singleSpaced :: "jsstring \<Rightarrow> bool" where
  "singleSpaced [] = True"
| "singleSpaced [c] = (isSpace c \<longrightarrow> c = 0x20)"
| "singleSpaced (c # d # cs) =
     ((isSpace c \<longrightarrow> c = 0x20 \<and> \<not> isSpace d) \<and> singleSpaced (d # cs))"

section \<open>Text extraction (extractText in routes.ts, extractTextAdvanced in queue.ts)\<close>

text \<open>
  What a \<open>catch\<close> clause receives: an \<open>Error\<close> object with its message, or any other
  thrown value.
\<close>

datatype thrown = ErrorObj jsstring | OtherValue

text \<open>
  The external collaborators of one extraction call, as the outcomes they deliver:
  \<open>sharpOk path\<close> tells whether the image preprocessing (sharp pipeline and the write of
  the temporary file) succeeds; \<open>recognize whitelist path\<close> is
  \<open>tesseract.recognize(path, config)\<close>, the flag telling whether \<open>config\<close> carries the
  character whitelist of the advanced pass; \<open>extractRawText path\<close> is
  \<open>(await mammoth.extractRawText({path})).value\<close>. Removing the temporary file is taken
  to succeed.
\<close>

record extern =
  sharpOk :: "jsstring \<Rightarrow> bool"
  recognize :: "bool \<Rightarrow> jsstring \<Rightarrow> thrown + jsstring"
  extractRawText :: "jsstring \<Rightarrow> thrown + jsstring"

definition isWordprocessingml :: "jsstring \<Rightarrow> bool" where
  "isWordprocessingml mimeType =
     (includesStr mimeType (js ''wordprocessingml'') \<or>
      includesStr mimeType (js ''application/vnd.openxmlformats-officedocument.wordprocessingml''))"

definition isOtherOffice :: "jsstring \<Rightarrow> bool" where
  "isOtherOffice mimeType =
     (includesStr mimeType (js ''document'') \<or> includesStr mimeType (js ''word'') \<or>
      includesStr mimeType (js ''msword''))"

definition pdfQuickPlaceholder :: jsstring where
  "pdfQuickPlaceholder = js ''PDF detectado - processamento de texto em desenvolvimento''"

definition officeQuickSentinel :: jsstring where
  "officeQuickSentinel =
     js ''Documento Office detectado - texto requer processamento adicional''"

definition pdfAdvancedPlaceholder :: jsstring where
  "pdfAdvancedPlaceholder =
     js (''PDF processado - extra'' @ [CHR 0xE7, CHR 0xE3] @ ''o avan'' @ [CHR 0xE7] @
         ''ada de texto em desenvolvimento'')"

definition officeAdvancedSentinel :: jsstring where
  "officeAdvancedSentinel =
     js (''Documento Office - formato n'' @ [CHR 0xE3] @ ''o suportado para extra'' @
         [CHR 0xE7, CHR 0xE3] @ ''o autom'' @ [CHR 0xE1] @ ''tica'')"

text \<open>The \<open>try\<close> block of \<open>extractText\<close>: \<open>Inl\<close> is a throw that reaches the \<open>catch\<close>.\<close>

definition tryExtractText :: "extern \<Rightarrow> jsstring \<Rightarrow> jsstring \<Rightarrow> thrown + jsstring" where
  "tryExtractText ext filePath mimeType =
     (if startsWith mimeType (js ''image/'') then
        (let processedPath =
               (if (mimeType = js ''image/png'' \<or> mimeType = js ''image/jpeg'') \<and>
                   sharpOk ext filePath
                then filePath @ js ''_processed.png'' else filePath)
         in case recognize ext False processedPath of
              Inl e \<Rightarrow> Inl e
            | Inr text \<Rightarrow> Inr (trim text))
      else if mimeType = js ''application/pdf'' then Inr pdfQuickPlaceholder
      else if isWordprocessingml mimeType then
        (case extractRawText ext filePath of
           Inl e \<Rightarrow> Inl e
         | Inr v \<Rightarrow> Inr v)
      else if isOtherOffice mimeType then
        (case extractRawText ext filePath of
           Inl e \<Rightarrow> Inr officeQuickSentinel
         | Inr v \<Rightarrow> Inr v)
      else Inr [])"

definition quickErrorText :: "thrown \<Rightarrow> jsstring" where
  "quickErrorText e =
     js (''Erro na extra'' @ [CHR 0xE7, CHR 0xE3] @ ''o de texto: '') @
     (case e of ErrorObj m \<Rightarrow> m | OtherValue \<Rightarrow> js ''Erro desconhecido'')"

text \<open>\<open>extractText\<close>, the quick pass: the \<open>catch\<close> turns every throw into a text.\<close>

definition extractText :: "extern \<Rightarrow> jsstring \<Rightarrow> jsstring \<Rightarrow> jsstring" where
  "extractText ext filePath mimeType =
     (case tryExtractText ext filePath mimeType of
        Inl e \<Rightarrow> quickErrorText e
      | Inr t \<Rightarrow> t)"

text \<open>
  \<open>extractTextAdvanced\<close>, the advanced pass: its \<open>catch\<close> logs and rethrows, so a throw of
  the body is a throw of the function (\<open>Inl\<close>).
\<close>

definition extractTextAdvanced :: "extern \<Rightarrow> jsstring \<Rightarrow> jsstring \<Rightarrow> thrown + jsstring" where
  "extractTextAdvanced ext filePath mimeType =
     (if startsWith mimeType (js ''image/'') then
        (let processedPath =
               (if sharpOk ext filePath then filePath @ js ''_processed.png'' else filePath)
         in case recognize ext True processedPath of
              Inl e \<Rightarrow> Inl e
            | Inr text \<Rightarrow> Inr (cleanOCRText text))
      else if mimeType = js ''application/pdf'' then Inr pdfAdvancedPlaceholder
      else if isWordprocessingml mimeType then
        (case extractRawText ext filePath of
           Inl e \<Rightarrow> Inl e
         | Inr v \<Rightarrow> Inr v)
      else if isOtherOffice mimeType then
        (case extractRawText ext filePath of
           Inl e \<Rightarrow> Inr officeAdvancedSentinel
         | Inr v \<Rightarrow> Inr v)
      else Inr [])"

section \<open>The documents table (schema.ts; storage.ts, src/unnamed/part_004)\<close>

text \<open>
  One row of the table. Nullable columns are options; timestamps are milliseconds since
  the epoch.
\<close>

record document =
  doc_id :: int
  title :: jsstring
  description :: "jsstring option"
  subject :: "jsstring option"
  tags :: "jsstring list option"
  category :: jsstring
  department :: "jsstring option"
  documentDate :: "int option"
  fileName :: jsstring
  originalName :: jsstring
  mimeType :: jsstring
  fileSize :: int
  filePath :: jsstring
  extractedText :: "jsstring option"
  ocrProcessed :: "bool option"
  createdAt :: int
  updatedAt :: int

text \<open>The table with its \<open>serial\<close> sequence. Rows are kept in insertion order.\<close>

record database =
  table_rows :: "document list"
  serial :: int

text \<open>
  \<open>createDocument\<close>: the insert assigns the next serial number and the two timestamps
  (\<open>createdAt\<close> by the column default, \<open>updatedAt\<close> by the code), and returns the row.
\<close>

definition createDocument :: "document \<Rightarrow> int \<Rightarrow> database \<Rightarrow> document \<times> database" where
  "createDocument insertDocument now db =
     (let row = insertDocument\<lparr>doc_id := serial db, createdAt := now, updatedAt := now\<rparr>
      in (row, db\<lparr>table_rows := table_rows db @ [row], serial := serial db + 1\<rparr>))"

definition getDocument :: "database \<Rightarrow> int \<Rightarrow> document option" where
  "getDocument db i = find (\<lambda>d. doc_id d = i) (table_rows db)"

text \<open>
  \<open>updateDocument\<close>: \<open>updates\<close> is the assignment of the provided fields (the \<open>set\<close>
  clause, after the conversion of a document date given as a string); \<open>updatedAt\<close> is
  always refreshed. A missing row leaves the table unchanged and the result undefined.
\<close>

definition updateDocument ::
  "int \<Rightarrow> (document \<Rightarrow> document) \<Rightarrow> int \<Rightarrow> database \<Rightarrow> document option \<times> database" where
  "updateDocument i updates now db =
     (let rows = map (\<lambda>d. if doc_id d = i then (updates d)\<lparr>updatedAt := now\<rparr> else d)
                     (table_rows db)
      in (find (\<lambda>d. doc_id d = i) rows, db\<lparr>table_rows := rows\<rparr>))"

section \<open>The background extraction queue (class OCRQueue in queue.ts, src/unnamed/part_003)\<close>

datatype job_status = Pending | Processing | Completed | Failed

text \<open>
  A job object. \<open>job_ref\<close> is the identity of the object (its reference): the worker
  keeps the reference of the job it found, and mutates that object. \<open>job_id\<close> is the
  template string \<open>`${documentId}-${Date.now()}`\<close>, held as the pair of numbers it is
  made of: two such strings are equal exactly when the two pairs are, and the code only
  compares ids.
\<close>

record queue_job =
  job_ref :: nat
  job_id :: "int \<times> int"
  job_documentId :: int
  job_filePath :: jsstring
  job_mimeType :: jsstring
  job_status :: job_status
  job_createdAt :: int
  job_processedAt :: "int option"
  job_error :: "jsstring option"

text \<open>
  Where the one \<open>processQueue\<close> call that is under way stands: not running, suspended
  at \<open>await this.extractTextAdvanced(...)\<close> for the job with the given reference, or
  suspended at \<open>await storage.updateDocument(...)\<close> with the extracted text and the
  reading of the clock at the call: \<open>updateDocument\<close> evaluates \<open>updatedAt: new Date()\<close>
  when it is called, before the statement is sent to the database.
\<close>

datatype worker = Idle | AwaitExtract nat | AwaitUpdate nat jsstring int

record ocr_queue =
  queue :: "queue_job list"
  processing :: bool
  worker :: worker
  nextRef :: nat

definition emptyQueue :: ocr_queue where
  "emptyQueue = \<lparr>queue = [], processing = False, worker = Idle, nextRef = 0\<rparr>"

definition emptyDatabase :: database where
  "emptyDatabase = \<lparr>table_rows = [], serial = 1\<rparr>"

text \<open>Assignment to fields of the job object with reference \<open>r\<close>.\<close>

definition setJob :: "nat \<Rightarrow> (queue_job \<Rightarrow> queue_job) \<Rightarrow> queue_job list \<Rightarrow> queue_job list" where
  "setJob r f jobs = map (\<lambda>j. if job_ref j = r then f j else j) jobs"

definition jobByRef :: "ocr_queue \<Rightarrow> nat \<Rightarrow> queue_job option" where
  "jobByRef q r = find (\<lambda>j. job_ref j = r) (queue q)"

text \<open>The filter of the clean-up: what stays in the queue at time \<open>now\<close>.\<close>

definition retained :: "int \<Rightarrow> queue_job \<Rightarrow> bool" where
  "retained now job =
     (job_status job = Pending \<or> job_status job = Processing \<or>
      (case job_processedAt job of
         None \<Rightarrow> False
       | Some t \<Rightarrow> t > now - 60 * 60 * 1000))"

text \<open>The end of \<open>processQueue\<close>, after the loop: clean-up and release of the flag.\<close>

definition finishQueue :: "int \<Rightarrow> ocr_queue \<Rightarrow> ocr_queue" where
  "finishQueue now q =
     q\<lparr>queue := filter (retained now) (queue q), processing := False, worker := Idle\<rparr>"

text \<open>
  The head of the \<open>while\<close> loop, run until the call suspends or returns: with no pending
  job the loop is left; otherwise the first pending job is marked as processing and the
  call suspends on its extraction.
\<close>

definition loopHead :: "int \<Rightarrow> ocr_queue \<Rightarrow> ocr_queue" where
  "loopHead now q =
     (if queue q = [] then finishQueue now q
      else case find (\<lambda>j. job_status j = Pending) (queue q) of
             None \<Rightarrow> finishQueue now q
           | Some job \<Rightarrow>
               q\<lparr>queue := setJob (job_ref job) (\<lambda>j. j\<lparr>job_status := Processing\<rparr>) (queue q),
                 worker := AwaitExtract (job_ref job)\<rparr>)"

definition processQueue :: "int \<Rightarrow> ocr_queue \<Rightarrow> ocr_queue" where
  "processQueue now q = (if processing q then q else loopHead now (q\<lparr>processing := True\<rparr>))"

text \<open>\<open>addJob\<close>: the new state of the queue and the returned job id.\<close>

definition addJob ::
  "int \<Rightarrow> jsstring \<Rightarrow> jsstring \<Rightarrow> int \<Rightarrow> ocr_queue \<Rightarrow> ocr_queue \<times> (int \<times> int)" where
  "addJob documentId path mime now q =
     (let job = \<lparr>job_ref = nextRef q, job_id = (documentId, now), job_documentId = documentId,
                 job_filePath = path, job_mimeType = mime, job_status = Pending,
                 job_createdAt = now, job_processedAt = None, job_error = None\<rparr>;
          q1 = q\<lparr>queue := queue q @ [job], nextRef := Suc (nextRef q)\<rparr>;
          q2 = (if \<not> processing q1 then processQueue now q1 else q1)
      in (q2, job_id job))"

definition getJobStatus :: "ocr_queue \<Rightarrow> int \<times> int \<Rightarrow> queue_job option" where
  "getJobStatus q jobId = find (\<lambda>j. job_id j = jobId) (queue q)"

definition countStatus :: "job_status \<Rightarrow> ocr_queue \<Rightarrow> nat" where
  "countStatus st q = length (filter (\<lambda>j. job_status j = st) (queue q))"

text \<open>The message the \<open>catch\<close> of the worker stores on the job.\<close>

definition jobErrorMessage :: "thrown \<Rightarrow> jsstring" where
  "jobErrorMessage e = (case e of ErrorObj m \<Rightarrow> m | OtherValue \<Rightarrow> js ''Unknown error'')"

text \<open>
  The suspended call resumes when the awaited extraction settles. A throw goes to the
  \<open>catch\<close>: the job fails, and the loop goes on. A text leads to the call of
  \<open>storage.updateDocument\<close>, on which the call suspends again.
\<close>

definition extractSettled :: "extern \<Rightarrow> int \<Rightarrow> ocr_queue \<Rightarrow> ocr_queue" where
  "extractSettled ext now q =
     (case worker q of
        AwaitExtract r \<Rightarrow>
          (case jobByRef q r of
             None \<Rightarrow> q
           | Some job \<Rightarrow>
               (case extractTextAdvanced ext (job_filePath job) (job_mimeType job) of
                  Inr text \<Rightarrow> q\<lparr>worker := AwaitUpdate r text now\<rparr>
                | Inl e \<Rightarrow>
                    loopHead now
                      (q\<lparr>queue := setJob r
                           (\<lambda>j. j\<lparr>job_status := Failed, job_error := Some (jobErrorMessage e),
                                  job_processedAt := Some now\<rparr>) (queue q)\<rparr>)))
      | _ \<Rightarrow> q)"

text \<open>
  The call resumes when the awaited update of the document is fulfilled: the rows of the
  document carry the text, the flag and the \<open>updatedAt\<close> read at the call; the job is
  completed at the clock of the settlement, and the loop goes on.
\<close>

definition updateSettled :: "int \<Rightarrow> ocr_queue \<times> database \<Rightarrow> ocr_queue \<times> database" where
  "updateSettled now s =
     (case s of (q, db) \<Rightarrow>
        (case worker q of
           AwaitUpdate r text called \<Rightarrow>
             (case jobByRef q r of
                None \<Rightarrow> (q, db)
              | Some job \<Rightarrow>
                  (loopHead now
                     (q\<lparr>queue := setJob r
                          (\<lambda>j. j\<lparr>job_status := Completed, job_processedAt := Some now\<rparr>)
                          (queue q)\<rparr>),
                   snd (updateDocument (job_documentId job)
                          (\<lambda>d. d\<lparr>extractedText := Some text, ocrProcessed := Some True\<rparr>)
                          called db)))
         | _ \<Rightarrow> (q, db)))"

text \<open>
  The awaited update of the document can be rejected as well (the statement fails, the
  connection is lost). This \<open>await\<close> stands in the same \<open>try\<close> as the extraction, so the
  throw goes to the same \<open>catch\<close>: the job fails with the message of the rejection,
  although the extraction had given a text, and the loop goes on. The rejected statement
  has changed no row.
\<close>

definition updateRejected :: "thrown \<Rightarrow> int \<Rightarrow> ocr_queue \<Rightarrow> ocr_queue" where
  "updateRejected e now q =
     (case worker q of
        AwaitUpdate r text called \<Rightarrow>
          (case jobByRef q r of
             None \<Rightarrow> q
           | Some job \<Rightarrow>
               loopHead now
                 (q\<lparr>queue := setJob r
                      (\<lambda>j. j\<lparr>job_status := Failed, job_error := Some (jobErrorMessage e),
                             job_processedAt := Some now\<rparr>) (queue q)\<rparr>))
      | _ \<Rightarrow> q)"

text \<open>
  What can happen to the queue, in any order: a caller enqueues a job, or one of the two
  awaited operations of the worker settles; the extraction settles as the libraries
  decide, the update of the document is fulfilled or rejected. Each event carries the
  reading \<open>now\<close> of the clock; the code that runs without suspension after it reads the
  same value.
\<close>

datatype event =
    Enqueue int jsstring jsstring int
  | ExtractSettled extern int
  | UpdateSettled int
  | UpdateRejected thrown int

fun step :: "ocr_queue \<times> database \<Rightarrow> event \<Rightarrow> ocr_queue \<times> database" where
  "step (q, db) (Enqueue documentId path mime now) = (fst (addJob documentId path mime now q), db)"
| "step (q, db) (ExtractSettled ext now) = (extractSettled ext now q, db)"
| "step (q, db) (UpdateSettled now) = updateSettled now (q, db)"
| "step (q, db) (UpdateRejected e now) = (updateRejected e now q, db)"

definition run :: "ocr_queue \<times> database \<Rightarrow> event list \<Rightarrow> ocr_queue \<times> database" where
  "run s evs = foldl step s evs"

text \<open>The reading of the clock that an event carries.\<close>

fun eventClock :: "event \<Rightarrow> int" where
  "eventClock (Enqueue d p m now) = now"
| "eventClock (ExtractSettled ext now) = now"
| "eventClock (UpdateSettled now) = now"
| "eventClock (UpdateRejected e now) = now"

section \<open>The HTTP handlers that use the queue (routes.ts)\<close>

text \<open>The validated metadata of an upload and one uploaded file, as multer delivers it.\<close>

record metadata =
  meta_title :: jsstring
  meta_description :: "jsstring option"
  meta_subject :: "jsstring option"
  meta_category :: jsstring
  meta_department :: "jsstring option"
  meta_documentDate :: "int option"
  meta_tags :: "jsstring list option"

record multer_file =
  file_originalname :: jsstring
  file_mimetype :: jsstring
  file_size :: int

text \<open>The condition under which the upload handler calls \<open>ocrQueue.addJob\<close>.\<close>

definition enqueuesAtUpload :: "jsstring \<Rightarrow> jsstring \<Rightarrow> bool" where
  "enqueuesAtUpload mime quickText =
     (startsWith mime (js ''image/'') \<or>
      (mime = js ''application/pdf'' \<and> (quickText = [] \<or> length quickText < 100)))"

text \<open>
  The body of the loop over the uploaded files, for one file. The name and the path of
  the stored file (made from the clock and the original name) are given; \<open>tCreate\<close> and
  \<open>tJob\<close> are the clock readings at the insert and at the call of \<open>addJob\<close>.
\<close>

definition uploadFile ::
  "extern \<Rightarrow> int \<Rightarrow> int \<Rightarrow> metadata \<Rightarrow> multer_file \<Rightarrow> jsstring \<Rightarrow> jsstring \<Rightarrow>
   ocr_queue \<times> database \<Rightarrow> document \<times> ocr_queue \<times> database" where
  "uploadFile ext tCreate tJob meta file storedName storedPath s =
     (case s of (q, db) \<Rightarrow>
        (let quickText = extractText ext storedPath (file_mimetype file);
             created = createDocument
               \<lparr>doc_id = 0, title = meta_title meta, description = meta_description meta,
                subject = meta_subject meta, tags = meta_tags meta,
                category = meta_category meta, department = meta_department meta,
                documentDate = meta_documentDate meta, fileName = storedName,
                originalName = file_originalname file, mimeType = file_mimetype file,
                fileSize = file_size file, filePath = storedPath,
                extractedText = Some quickText, ocrProcessed = Some False,
                createdAt = 0, updatedAt = 0\<rparr> tCreate db;
             document = fst created;
             q' = (if enqueuesAtUpload (file_mimetype file) quickText
                   then fst (addJob (doc_id document) storedPath (file_mimetype file) tJob q)
                   else q)
         in (document, q', snd created)))"

text \<open>A JSON response: the status code, the message and, when present, the job id.\<close>

datatype response = Response nat jsstring "(int \<times> int) option"

text \<open>
  \<open>POST /api/documents/:id/reprocess\<close>. \<open>idParam\<close> is \<open>parseInt(req.params.id)\<close>, with
  \<open>None\<close> for \<open>NaN\<close> (the lookup then fails, and the \<open>catch\<close> answers 500);
  \<open>existsSync\<close> is \<open>fs.existsSync\<close>.
\<close>

definition reprocess ::
  "(jsstring \<Rightarrow> bool) \<Rightarrow> int \<Rightarrow> int option \<Rightarrow> ocr_queue \<times> database \<Rightarrow> response \<times> ocr_queue" where
  "reprocess existsSync now idParam s =
     (case s of (q, db) \<Rightarrow>
        (case idParam of
           None \<Rightarrow> (Response 500 (js ''Reprocessing failed'') None, q)
         | Some i \<Rightarrow>
             (case getDocument db i of
                None \<Rightarrow> (Response 404 (js ''Document not found'') None, q)
              | Some document \<Rightarrow>
                  if \<not> existsSync (filePath document)
                  then (Response 404 (js ''File not found on disk'') None, q)
                  else (let added = addJob (doc_id document) (filePath document)
                                      (mimeType document) now q
                        in (Response 200 (js ''Document queued for reprocessing'')
                              (Some (snd added)), fst added)))))"

section \<open>Search (searchDocuments in storage.ts, src/unnamed/part_004)\<close>

text \<open>
  The database engine is not part of the repository; the operators the query uses are
  modelled after PostgreSQL. A condition evaluates to true, false or NULL (\<open>None\<close>), and
  a row is selected when the \<open>WHERE\<close> clause is true.
\<close>

type_synonym sqlbool = "bool option"

fun sqlOr :: "sqlbool \<Rightarrow> sqlbool \<Rightarrow> sqlbool" where
  "sqlOr (Some True) _ = Some True"
| "sqlOr _ (Some True) = Some True"
| "sqlOr (Some False) (Some False) = Some False"
| "sqlOr _ _ = None"

fun sqlAnd :: "sqlbool \<Rightarrow> sqlbool \<Rightarrow> sqlbool" where
  "sqlAnd (Some False) _ = Some False"
| "sqlAnd _ (Some False) = Some False"
| "sqlAnd (Some True) (Some True) = Some True"
| "sqlAnd _ _ = None"

text \<open>
  A \<open>LIKE\<close> pattern: \<open>%\<close> stands for any sequence, \<open>_\<close> for any one character, and a
  backslash makes the next character literal; a pattern that ends in a lone backslash
  is rejected. A character is a code unit here.
\<close>

datatype like_token = AnySeq | AnyOne | Lit "16 word"

definition likeToken :: "16 word \<Rightarrow> like_token" where
  "likeToken c = (if c = 0x25 then AnySeq else if c = 0x5F then AnyOne else Lit c)"

fun likeTokens :: "jsstring \<Rightarrow> like_token list option" where
  "likeTokens [] = Some []"
| "likeTokens [c] = (if c = 0x5C then None else Some [likeToken c])"
| "likeTokens (c # d # cs) =
     (if c = 0x5C then map_option (Cons (Lit d)) (likeTokens cs)
      else map_option (Cons (likeToken c)) (likeTokens (d # cs)))"

text \<open>\<open>ILIKE\<close> compares literal characters after the case folding \<open>lower\<close>.\<close>

fun likeMatch :: "(16 word \<Rightarrow> 16 word) \<Rightarrow> like_token list \<Rightarrow> jsstring \<Rightarrow> bool" where
  "likeMatch lower [] s = (s = [])"
| "likeMatch lower (AnySeq # ts) [] = likeMatch lower ts []"
| "likeMatch lower (AnySeq # ts) (c # cs) =
     (likeMatch lower ts (c # cs) \<or> likeMatch lower (AnySeq # ts) cs)"
| "likeMatch lower (AnyOne # ts) [] = False"
| "likeMatch lower (AnyOne # ts) (c # cs) = likeMatch lower ts cs"
| "likeMatch lower (Lit x # ts) [] = False"
| "likeMatch lower (Lit x # ts) (c # cs) = (lower x = lower c \<and> likeMatch lower ts cs)"

text \<open>
  What the server relies on besides the table: the case folding of the database
  locale, \<open>new Date(s)\<close> (\<open>None\<close> is an Invalid Date) and the sort key of the text
  collation.
\<close>

record 'k server_env =
  lowerCase :: "16 word \<Rightarrow> 16 word"
  newDate :: "jsstring \<Rightarrow> int option"
  collation :: "jsstring \<Rightarrow> 'k"

datatype search_error = InvalidDate | InvalidPattern | NegativeLimitOrOffset

text \<open>\<open>ilike(column, `%${query}%`)\<close> on a nullable text column.\<close>

definition ilikeContains ::
  "(16 word \<Rightarrow> 16 word) \<Rightarrow> jsstring \<Rightarrow> jsstring option \<Rightarrow> search_error + sqlbool" where
  "ilikeContains lower query column =
     (case likeTokens ([0x25] @ query @ [0x25]) of
        None \<Rightarrow> Inl InvalidPattern
      | Some ts \<Rightarrow>
          Inr (case column of None \<Rightarrow> None | Some text \<Rightarrow> Some (likeMatch lower ts text)))"

text \<open>\<open>eq\<close>, \<open>gte\<close> and \<open>lte\<close> on a nullable column.\<close>

definition sqlEq :: "'a option \<Rightarrow> 'a \<Rightarrow> sqlbool" where
  "sqlEq column v = map_option (\<lambda>x. x = v) column"

definition sqlGte :: "int option \<Rightarrow> int \<Rightarrow> sqlbool" where
  "sqlGte column v = map_option (\<lambda>x. x \<ge> v) column"

definition sqlLte :: "int option \<Rightarrow> int \<Rightarrow> sqlbool" where
  "sqlLte column v = map_option (\<lambda>x. x \<le> v) column"

record search_params =
  sp_query :: "jsstring option"
  sp_category :: "jsstring option"
  sp_department :: "jsstring option"
  sp_dateFrom :: "jsstring option"
  sp_dateTo :: "jsstring option"
  sp_page :: int
  sp_limit :: int
  sp_sortBy :: jsstring

text \<open>\<open>if (x)\<close> for an optional string: defined and not empty.\<close>

definition provided :: "jsstring option \<Rightarrow> bool" where
  "provided x = (case x of None \<Rightarrow> False | Some v \<Rightarrow> v \<noteq> [])"

text \<open>
  The conditions pushed on \<open>whereConditions\<close>, one definition for each \<open>if\<close> of the
  source, each condition as its value on a row. A value that cannot be sent to the
  database (an Invalid Date) makes the query fail.
\<close>

definition queryCondition ::
  "'k server_env \<Rightarrow> search_params \<Rightarrow> (search_error + (document \<Rightarrow> sqlbool)) list" where
  "queryCondition env p =
     (if provided (sp_query p) then
        [case likeTokens ([0x25] @ the (sp_query p) @ [0x25]) of
           None \<Rightarrow> Inl InvalidPattern
         | Some ts \<Rightarrow>
             Inr (\<lambda>row.
               sqlOr (Some (likeMatch (lowerCase env) ts (title row)))
                 (sqlOr (map_option (likeMatch (lowerCase env) ts) (description row))
                    (sqlOr (map_option (likeMatch (lowerCase env) ts) (subject row))
                       (map_option (likeMatch (lowerCase env) ts) (extractedText row)))))]
      else [])"

definition categoryCondition :: "search_params \<Rightarrow> (search_error + (document \<Rightarrow> sqlbool)) list" where
  "categoryCondition p =
     (if provided (sp_category p)
      then [Inr (\<lambda>row. sqlEq (Some (category row)) (the (sp_category p)))] else [])"

definition departmentCondition :: "search_params \<Rightarrow> (search_error + (document \<Rightarrow> sqlbool)) list" where
  "departmentCondition p =
     (if provided (sp_department p)
      then [Inr (\<lambda>row. sqlEq (department row) (the (sp_department p)))] else [])"

definition dateFromCondition ::
  "'k server_env \<Rightarrow> search_params \<Rightarrow> (search_error + (document \<Rightarrow> sqlbool)) list" where
  "dateFromCondition env p =
     (if provided (sp_dateFrom p)
      then [case newDate env (the (sp_dateFrom p)) of
              None \<Rightarrow> Inl InvalidDate
            | Some t \<Rightarrow> Inr (\<lambda>row. sqlGte (documentDate row) t)] else [])"

definition dateToCondition ::
  "'k server_env \<Rightarrow> search_params \<Rightarrow> (search_error + (document \<Rightarrow> sqlbool)) list" where
  "dateToCondition env p =
     (if provided (sp_dateTo p)
      then [case newDate env (the (sp_dateTo p)) of
              None \<Rightarrow> Inl InvalidDate
            | Some t \<Rightarrow> Inr (\<lambda>row. sqlLte (documentDate row) t)] else [])"

definition whereConditions ::
  "'k server_env \<Rightarrow> search_params \<Rightarrow> (search_error + (document \<Rightarrow> sqlbool)) list" where
  "whereConditions env p =
     queryCondition env p @ categoryCondition p @ departmentCondition p @
     dateFromCondition env p @ dateToCondition env p"

text \<open>The first condition that cannot be built, if any.\<close>

fun firstError :: "(search_error + 'a) list \<Rightarrow> search_error option" where
  "firstError [] = None"
| "firstError (Inl e # cs) = Some e"
| "firstError (Inr c # cs) = firstError cs"

fun conditionsOf :: "(search_error + 'a) list \<Rightarrow> 'a list" where
  "conditionsOf [] = []"
| "conditionsOf (Inl e # cs) = conditionsOf cs"
| "conditionsOf (Inr c # cs) = c # conditionsOf cs"

text \<open>
  \<open>whereConditions.length > 0 ? and(...whereConditions) : undefined\<close>: with no condition
  there is no \<open>WHERE\<close> clause and every row is selected.
\<close>

definition selectedRow :: "(document \<Rightarrow> sqlbool) list \<Rightarrow> document \<Rightarrow> bool" where
  "selectedRow conds row =
     (if conds = [] then True
      else foldr (\<lambda>c acc. sqlAnd (c row) acc) conds (Some True) = Some True)"

text \<open>
  \<open>ORDER BY\<close>. PostgreSQL takes NULL as larger than every value (first when descending,
  last when ascending), and text follows the collation.
\<close>

definition nullsLargestLe :: "int option \<Rightarrow> int option \<Rightarrow> bool" where
  "nullsLargestLe x y =
     (case y of None \<Rightarrow> True | Some b \<Rightarrow> (case x of None \<Rightarrow> False | Some a \<Rightarrow> a \<le> b))"

definition orderBy :: "('k::linorder) server_env \<Rightarrow> jsstring \<Rightarrow> document \<Rightarrow> document \<Rightarrow> bool" where
  "orderBy env sortBy a b =
     (if sortBy = js ''date-desc'' then nullsLargestLe (documentDate b) (documentDate a)
      else if sortBy = js ''date-asc'' then nullsLargestLe (documentDate a) (documentDate b)
      else if sortBy = js ''title'' then collation env (title a) \<le> collation env (title b)
      else if sortBy = js ''size'' then fileSize b \<le> fileSize a
      else createdAt b \<le> createdAt a)"

text \<open>Sorting by insertion; any order of the rows with equal keys is a valid answer.\<close>

fun insertBy :: "('a \<Rightarrow> 'a \<Rightarrow> bool) \<Rightarrow> 'a \<Rightarrow> 'a list \<Rightarrow> 'a list" where
  "insertBy le x [] = [x]"
| "insertBy le x (y # ys) = (if le x y then x # y # ys else y # insertBy le x ys)"

definition sortRows :: "('a \<Rightarrow> 'a \<Rightarrow> bool) \<Rightarrow> 'a list \<Rightarrow> 'a list" where
  "sortRows le xs = foldr (insertBy le) xs []"

text \<open>
  \<open>searchDocuments\<close>: the page of the sorted selection and the count of the selection.
  PostgreSQL rejects a negative \<open>LIMIT\<close> or \<open>OFFSET\<close>.
\<close>

definition searchDocuments ::
  "('k::linorder) server_env \<Rightarrow> search_params \<Rightarrow> database \<Rightarrow> search_error + document list \<times> nat" where
  "searchDocuments env p db =
     (let offset = (sp_page p - 1) * sp_limit p;
          built = whereConditions env p
      in case firstError built of
           Some e \<Rightarrow> Inl e
         | None \<Rightarrow>
             if sp_limit p < 0 \<or> offset < 0 then Inl NegativeLimitOrOffset
             else
               (let selection = filter (selectedRow (conditionsOf built)) (table_rows db)
                in Inr (take (nat (sp_limit p))
                          (drop (nat offset) (sortRows (orderBy env (sp_sortBy p)) selection)),
                        length selection)))"

text \<open>
  The filters in the words of the specification: the free-text query matches one of the
  four text fields, category and department are equal to the given values, and the
  document date lies within the inclusive bounds.
\<close>

definition matchesQuery :: "'k server_env \<Rightarrow> jsstring \<Rightarrow> document \<Rightarrow> bool" where
  "matchesQuery env q d =
     (ilikeContains (lowerCase env) q (Some (title d)) = Inr (Some True) \<or>
      ilikeContains (lowerCase env) q (description d) = Inr (Some True) \<or>
      ilikeContains (lowerCase env) q (subject d) = Inr (Some True) \<or>
      ilikeContains (lowerCase env) q (extractedText d) = Inr (Some True))"

definition satisfiesFilters :: "'k server_env \<Rightarrow> search_params \<Rightarrow> document \<Rightarrow> bool" where
  "satisfiesFilters env p d =
     ((provided (sp_query p) \<longrightarrow> matchesQuery env (the (sp_query p)) d) \<and>
      (provided (sp_category p) \<longrightarrow> category d = the (sp_category p)) \<and>
      (provided (sp_department p) \<longrightarrow> department d = Some (the (sp_department p))) \<and>
      (provided (sp_dateFrom p) \<longrightarrow>
         (\<exists>t b. documentDate d = Some t \<and> newDate env (the (sp_dateFrom p)) = Some b \<and> b \<le> t)) \<and>
      (provided (sp_dateTo p) \<longrightarrow>
         (\<exists>t b. documentDate d = Some t \<and> newDate env (the (sp_dateTo p)) = Some b \<and> t \<le> b)))"

text \<open>\<open>q\<close> occurs in \<open>text\<close>, up to case.\<close>

definition containsIgnoringCase :: "(16 word \<Rightarrow> 16 word) \<Rightarrow> jsstring \<Rightarrow> jsstring \<Rightarrow> bool" where
  "containsIgnoringCase lower text q = includesStr (map lower text) (map lower q)"

definition asciiLower :: "16 word \<Rightarrow> 16 word" where
  "asciiLower c = (if 0x41 \<le> c \<and> c \<le> 0x5A then c + 0x20 else c)"

section \<open>Notions used in the properties\<close>

subsection \<open>The invariant of the queue\<close>

text \<open>
  The worker is on the job with reference \<open>r\<close>: that job is in the queue with the status
  \<open>Processing\<close>, and no other job has that status.
\<close>

definition workerOn :: "queue_job list \<Rightarrow> nat \<Rightarrow> bool" where
  "workerOn jobs r =
     ((\<exists>j\<in>set jobs. job_ref j = r \<and> job_status j = Processing) \<and>
      (\<forall>j\<in>set jobs. job_status j = Processing \<longrightarrow> job_ref j = r))"

text \<open>
  References are distinct and below the next reference to be given. While no call of
  \<open>processQueue\<close> is under way the flag is down and no job is pending or processing;
  while one is suspended the flag is up and the worker is on its job.
\<close>

definition queueInv :: "ocr_queue \<Rightarrow> bool" where
  "queueInv q =
     (distinct (map job_ref (queue q)) \<and> (\<forall>j\<in>set (queue q). job_ref j < nextRef q) \<and>
      (case worker q of
         Idle \<Rightarrow> \<not> processing q \<and>
                 (\<forall>j\<in>set (queue q). job_status j \<noteq> Pending \<and> job_status j \<noteq> Processing)
       | AwaitExtract r \<Rightarrow> processing q \<and> workerOn (queue q) r
       | AwaitUpdate r t c \<Rightarrow> processing q \<and> workerOn (queue q) r))"

subsection \<open>Job records over a run\<close>

text \<open>The job ids returned to the callers of \<open>addJob\<close>, in the order of the calls.\<close>

fun returnedIds :: "event list \<Rightarrow> (int \<times> int) list" where
  "returnedIds [] = []"
| "returnedIds (Enqueue d p m now # evs) = (d, now) # returnedIds evs"
| "returnedIds (ExtractSettled ext now # evs) = returnedIds evs"
| "returnedIds (UpdateSettled now # evs) = returnedIds evs"
| "returnedIds (UpdateRejected e now # evs) = returnedIds evs"

text \<open>One move along pending, processing, completed or failed; or no move.\<close>

definition moveForward :: "job_status \<Rightarrow> job_status \<Rightarrow> bool" where
  "moveForward a b =
     (b = a \<or> (a = Pending \<and> b = Processing) \<or>
      (a = Processing \<and> (b = Completed \<or> b = Failed)))"

text \<open>The same status, or one further along.\<close>

definition laterStatus :: "job_status \<Rightarrow> job_status \<Rightarrow> bool" where
  "laterStatus a b =
     (b = a \<or> a = Pending \<or> (a = Processing \<and> (b = Completed \<or> b = Failed)))"

text \<open>The job with reference \<open>r\<close> is in the queue; it is there and has completed or failed.\<close>

definition jobPresent :: "nat \<Rightarrow> ocr_queue \<Rightarrow> bool" where
  "jobPresent r q = (\<exists>j\<in>set (queue q). job_ref j = r)"

definition jobFinished :: "nat \<Rightarrow> ocr_queue \<Rightarrow> bool" where
  "jobFinished r q =
     (\<exists>j\<in>set (queue q). job_ref j = r \<and> (job_status j = Completed \<or> job_status j = Failed))"

subsection \<open>Runs without a clean-up\<close>

text \<open>
  \<open>processQueue\<close> returns only through the code after its loop, the clean-up, and
  nothing else makes the worker idle. So the clean-up is executed in a step exactly when
  the worker is busy before the step and idle after it. In a run with \<open>noCleanUp\<close> no
  step does that.
\<close>

fun noCleanUp :: "ocr_queue \<times> database \<Rightarrow> event list \<Rightarrow> bool" where
  "noCleanUp s [] = True"
| "noCleanUp s (e # evs) =
     (\<not> (worker (fst s) \<noteq> Idle \<and> worker (fst (step s e)) = Idle) \<and> noCleanUp (step s e) evs)"

section \<open>Example inputs\<close>

text \<open>The media types the properties are tried on.\<close>

definition jpegMime :: jsstring where
  "jpegMime = js ''image/jpeg''"

definition pdfMime :: jsstring where
  "pdfMime = js ''application/pdf''"

definition docxMime :: jsstring where
  "docxMime = js ''application/vnd.openxmlformats-officedocument.wordprocessingml.document''"

definition mswordMime :: jsstring where
  "mswordMime = js ''application/msword''"

text \<open>An environment in which mammoth throws, and one in which the OCR engine reads 100 letters.\<close>

definition failingMammoth :: extern where
  "failingMammoth =
     \<lparr>sharpOk = (\<lambda>p. True), recognize = (\<lambda>w p. Inr []),
      extractRawText = (\<lambda>p. Inl (ErrorObj (js ''corrupt'')))\<rparr>"

definition longText :: jsstring where
  "longText = replicate 100 0x61"

definition readsLongText :: extern where
  "readsLongText =
     \<lparr>sharpOk = (\<lambda>p. False), recognize = (\<lambda>w p. Inr longText),
      extractRawText = (\<lambda>p. Inr (js ''Contract A''))\<rparr>"

definition messyText :: jsstring where
  "messyText =
     js ''  Ol'' @ [0xE1] @ js '', #1'' @ [0xA, 0x20, 0x9, 0xA, 0xA] @ js ''  mundo'' @
     [0x2028, 0xD, 0xA] @ js ''*fim*  ''"

definition readsMessyText :: extern where
  "readsMessyText =
     \<lparr>sharpOk = (\<lambda>p. True), recognize = (\<lambda>w p. Inr messyText),
      extractRawText = (\<lambda>p. Inr [])\<rparr>"

text \<open>An upload of a photo and one of a Word document.\<close>

definition someMetadata :: metadata where
  "someMetadata =
     \<lparr>meta_title = js ''Contract A'', meta_description = None, meta_subject = None,
      meta_category = js ''contrato'', meta_department = None, meta_documentDate = None,
      meta_tags = None\<rparr>"

definition jpegFile :: multer_file where
  "jpegFile = \<lparr>file_originalname = js ''a.jpg'', file_mimetype = jpegMime, file_size = 1\<rparr>"

definition docxFile :: multer_file where
  "docxFile = \<lparr>file_originalname = js ''a.docx'', file_mimetype = docxMime, file_size = 1\<rparr>"

text \<open>Jobs, documents and queues to try the worker, the clean-up and the status query on.\<close>

definition docxJob :: queue_job where
  "docxJob =
     \<lparr>job_ref = 0, job_id = (1, 5), job_documentId = 1, job_filePath = js ''uploads/1-a.docx'',
      job_mimeType = docxMime, job_status = Processing, job_createdAt = 5,
      job_processedAt = None, job_error = None\<rparr>"

definition docxDocument :: document where
  "docxDocument =
     \<lparr>doc_id = 1, title = js ''Contract A'', description = None, subject = None, tags = None,
      category = js ''contrato'', department = None, documentDate = None,
      fileName = js ''1-a.docx'', originalName = js ''a.docx'', mimeType = docxMime,
      fileSize = 1, filePath = js ''uploads/1-a.docx'', extractedText = Some [],
      ocrProcessed = Some False, createdAt = 1, updatedAt = 1\<rparr>"

definition oneDocument :: database where
  "oneDocument = \<lparr>table_rows = [docxDocument], serial = 2\<rparr>"

definition oldJob :: queue_job where
  "oldJob =
     \<lparr>job_ref = 0, job_id = (1, 5), job_documentId = 1, job_filePath = js ''uploads/1-a.jpg'',
      job_mimeType = jpegMime, job_status = Completed, job_createdAt = 5,
      job_processedAt = Some 9, job_error = None\<rparr>"

definition waitingJob :: queue_job where
  "waitingJob =
     \<lparr>job_ref = 1, job_id = (2, 4000000), job_documentId = 2,
      job_filePath = js ''uploads/2-b.jpg'', job_mimeType = jpegMime, job_status = Pending,
      job_createdAt = 4000000, job_processedAt = None, job_error = None\<rparr>"

definition agedQueue :: ocr_queue where
  "agedQueue = \<lparr>queue = [oldJob, waitingJob], processing = True, worker = Idle, nextRef = 2\<rparr>"

definition staleJob :: queue_job where
  "staleJob =
     \<lparr>job_ref = 0, job_id = (1, 0), job_documentId = 1, job_filePath = js ''uploads/1-a.docx'',
      job_mimeType = docxMime, job_status = Failed, job_createdAt = 0,
      job_processedAt = Some 1, job_error = Some (js ''corrupt'')\<rparr>"

definition lateJob :: queue_job where
  "lateJob =
     \<lparr>job_ref = 1, job_id = (2, 7200000), job_documentId = 2,
      job_filePath = js ''uploads/2-b.docx'', job_mimeType = docxMime, job_status = Processing,
      job_createdAt = 7200000, job_processedAt = None, job_error = None\<rparr>"

definition staleQueue :: ocr_queue where
  "staleQueue =
     \<lparr>queue = [staleJob, lateJob], processing = True, worker = AwaitExtract 1, nextRef = 2\<rparr>"

definition jpegJob :: queue_job where
  "jpegJob =
     \<lparr>job_ref = 1, job_id = (2, 6), job_documentId = 2, job_filePath = js ''uploads/2-b.jpg'',
      job_mimeType = jpegMime, job_status = Pending, job_createdAt = 6,
      job_processedAt = None, job_error = None\<rparr>"

definition twoJobs :: ocr_queue where
  "twoJobs = \<lparr>queue = [docxJob, jpegJob], processing = True, worker = AwaitExtract 0, nextRef = 2\<rparr>"

definition firstJob :: queue_job where
  "firstJob =
     \<lparr>job_ref = 0, job_id = (1, 5), job_documentId = 1, job_filePath = js ''uploads/1-a.jpg'',
      job_mimeType = jpegMime, job_status = Processing, job_createdAt = 5,
      job_processedAt = None, job_error = None\<rparr>"

definition secondJob :: queue_job where
  "secondJob =
     \<lparr>job_ref = 1, job_id = (1, 5), job_documentId = 1, job_filePath = js ''uploads/1-a.jpg'',
      job_mimeType = jpegMime, job_status = Pending, job_createdAt = 5,
      job_processedAt = None, job_error = None\<rparr>"

text \<open>A server environment and two rows to try the search on.\<close>

definition testEnv :: "nat list server_env" where
  "testEnv =
     \<lparr>lowerCase = asciiLower,
      newDate = (\<lambda>s. if s = js ''2024-01-01'' then Some 1704067200000 else None),
      collation = map unat\<rparr>"

definition contractRow :: document where
  "contractRow =
     \<lparr>doc_id = 1, title = js ''Contract A'', description = Some (js ''Lease''), subject = None,
      tags = None, category = js ''contrato'', department = Some (js ''legal''),
      documentDate = Some 1718000000000, fileName = js ''1-a.docx'',
      originalName = js ''a.docx'', mimeType = docxMime, fileSize = 10,
      filePath = js ''uploads/1-a.docx'', extractedText = Some (js ''Contract A''),
      ocrProcessed = Some False, createdAt = 100, updatedAt = 100\<rparr>"

definition photoRow :: document where
  "photoRow =
     \<lparr>doc_id = 2, title = js ''abc'', description = None, subject = None, tags = None,
      category = js ''foto'', department = None, documentDate = None,
      fileName = js ''2-b.jpg'', originalName = js ''b.jpg'', mimeType = jpegMime,
      fileSize = 20, filePath = js ''uploads/2-b.jpg'', extractedText = None,
      ocrProcessed = Some False, createdAt = 200, updatedAt = 200\<rparr>"

definition twoRows :: database where
  "twoRows = \<lparr>table_rows = [contractRow, photoRow], serial = 3\<rparr>"

definition noFilters :: search_params where
  "noFilters =
     \<lparr>sp_query = None, sp_category = None, sp_department = None, sp_dateFrom = None,
      sp_dateTo = None, sp_page = 1, sp_limit = 10, sp_sortBy = js ''relevance''\<rparr>"

definition legalContracts :: search_params where
  "legalContracts =
     noFilters\<lparr>sp_query := Some (js ''lease''), sp_category := Some (js ''contrato''),
       sp_department := Some (js ''legal''), sp_dateFrom := Some (js ''2024-01-01'')\<rparr>"

definition underscoreQuery :: search_params where
  "underscoreQuery = noFilters\<lparr>sp_query := Some (js ''a_c'')\<rparr>"


section \<open>Properties of the cleaning\<close>

subsection \<open>Facts about the character classes\<close>

lemma isSpace_space: "isSpace 0x20"
  by (simp add: isSpace_def)

lemma isSpace_linefeed: "isSpace 0xA"
  by (simp add: isSpace_def)

lemma isSpace_kept: "isSpace c \<Longrightarrow> keptChar c"
  by (simp add: keptChar_def)

subsection \<open>The cleaned text is single-spaced\<close>

lemma singleSpaced_Cons_nonspace:
  "\<not> isSpace c \<Longrightarrow> singleSpaced xs \<Longrightarrow> singleSpaced (c # xs)"
  by (cases xs) simp_all

lemma singleSpaced_tl: "singleSpaced (c # xs) \<Longrightarrow> singleSpaced xs"
  by (cases xs) simp_all

lemma singleSpaced_collapseSpaces: "singleSpaced (collapseSpaces s)"
proof (induction s rule: collapseSpaces.induct)
  case 1
  show ?case by simp
next
  case (2 c cs)
  show ?case
  proof (cases "isSpace c")
    case True
    note sp = True
    show ?thesis
    proof (cases "dropWhile isSpace cs")
      case Nil
      with sp have "collapseSpaces (c # cs) = [0x20]"
        by (simp only: collapseSpaces.simps if_True)
      then show ?thesis by simp
    next
      case (Cons d ds)
      then have nd: "\<not> isSpace d"
        by (metis hd_dropWhile list.distinct(1) list.sel(1))
      from sp Cons have eq: "collapseSpaces (c # cs) = 0x20 # collapseSpaces (d # ds)"
        by (simp only: collapseSpaces.simps if_True)
      from 2(1) [OF sp] Cons have "singleSpaced (collapseSpaces (d # ds))"
        by (simp only:)
      moreover from nd have "collapseSpaces (d # ds) = d # collapseSpaces ds"
        by simp
      ultimately show ?thesis using nd eq by simp
    qed
  next
    case False
    with 2(2) show ?thesis
      by (simp add: singleSpaced_Cons_nonspace)
  qed
qed

lemma singleSpaced_dropWhile: "singleSpaced s \<Longrightarrow> singleSpaced (dropWhile P s)"
  by (induction s) (auto dest: singleSpaced_tl)

lemma singleSpaced_prefix: "singleSpaced (xs @ ys) \<Longrightarrow> singleSpaced xs"
proof (induction xs rule: singleSpaced.induct)
  case 1
  show ?case by simp
next
  case (2 c)
  then show ?case by (cases ys) simp_all
next
  case (3 c d cs)
  then show ?case by simp
qed

lemma rev_dropWhile_rev_prefix:
  "s = rev (dropWhile P (rev s)) @ rev (takeWhile P (rev s))"
proof -
  have "rev (dropWhile P (rev s)) @ rev (takeWhile P (rev s)) =
        rev (takeWhile P (rev s) @ dropWhile P (rev s))"
    by (simp only: rev_append)
  also have "\<dots> = rev (rev s)"
    by (simp only: takeWhile_dropWhile_id)
  finally show ?thesis by simp
qed

lemma singleSpaced_trim: "singleSpaced s \<Longrightarrow> singleSpaced (trim s)"
proof -
  assume "singleSpaced s"
  then have a: "singleSpaced (dropWhile isSpace s)"
    by (rule singleSpaced_dropWhile)
  let ?a = "dropWhile isSpace s"
  have "?a = rev (dropWhile isSpace (rev ?a)) @ rev (takeWhile isSpace (rev ?a))"
    by (rule rev_dropWhile_rev_prefix)
  with a have "singleSpaced (rev (dropWhile isSpace (rev ?a)))"
    using singleSpaced_prefix by metis
  then show ?thesis by (simp add: trim_def)
qed

subsection \<open>Every stage leaves a cleaned text alone\<close>

lemma singleSpaced_no_linefeed: "singleSpaced s \<Longrightarrow> 0xA \<notin> set s"
proof (induction s rule: singleSpaced.induct)
  case 1
  show ?case by simp
next
  case (2 c)
  then show ?case using isSpace_linefeed by auto
next
  case (3 c d cs)
  then show ?case using isSpace_linefeed by auto
qed

lemma removeBlankLines_id: "0xA \<notin> set s \<Longrightarrow> removeBlankLines s = s"
  by (induction s) auto

lemma collapseSpaces_id: "singleSpaced s \<Longrightarrow> collapseSpaces s = s"
proof (induction s rule: singleSpaced.induct)
  case 1
  show ?case by simp
next
  case (2 c)
  then show ?case by simp
next
  case (3 c d cs)
  from 3(2) have ss: "singleSpaced (d # cs)" and c: "isSpace c \<longrightarrow> c = 0x20 \<and> \<not> isSpace d"
    by simp_all
  from 3(1) [OF ss] have ih: "collapseSpaces (d # cs) = d # cs" .
  show ?case
  proof (cases "isSpace c")
    case True
    with c have c0: "c = 0x20" and nd: "\<not> isSpace d"
      by simp_all
    from True have "collapseSpaces (c # d # cs) = 0x20 # collapseSpaces (dropWhile isSpace (d # cs))"
      by (simp only: collapseSpaces.simps if_True)
    also from nd have "dropWhile isSpace (d # cs) = d # cs"
      by simp
    also note ih
    finally show ?thesis using c0 by simp
  next
    case False
    then have "collapseSpaces (c # d # cs) = c # collapseSpaces (d # cs)"
      by (simp only: collapseSpaces.simps if_False)
    with ih show ?thesis by simp
  qed
qed

lemma set_collapseSpaces: "set (collapseSpaces s) \<subseteq> insert 0x20 (set s)"
proof (induction s rule: collapseSpaces.induct)
  case 1
  show ?case by simp
next
  case (2 c cs)
  show ?case
  proof (cases "isSpace c")
    case True
    with 2(1) have "set (collapseSpaces (dropWhile isSpace cs)) \<subseteq> insert 0x20 (set cs)"
      using set_dropWhileD [of _ isSpace cs] by blast
    with True show ?thesis by auto
  next
    case False
    with 2(2) show ?thesis by auto
  qed
qed

lemma set_trim: "set (trim s) \<subseteq> set s"
proof
  fix x
  assume "x \<in> set (trim s)"
  then have "x \<in> set (dropWhile isSpace (rev (dropWhile isSpace s)))"
    by (simp add: trim_def)
  then have "x \<in> set (rev (dropWhile isSpace s))"
    by (rule set_dropWhileD)
  then have "x \<in> set (dropWhile isSpace s)"
    by simp
  then show "x \<in> set s"
    by (rule set_dropWhileD)
qed

lemma dropWhile_trim: "dropWhile isSpace (trim s) = trim s"
proof (cases "trim s")
  case Nil
  then show ?thesis by simp
next
  case (Cons b bs)
  let ?a = "dropWhile isSpace s"
  have split: "?a = trim s @ rev (takeWhile isSpace (rev ?a))"
    unfolding trim_def by (rule rev_dropWhile_rev_prefix)
  with Cons have "?a = b # (bs @ rev (takeWhile isSpace (rev ?a)))"
    by (simp only: append_Cons)
  then have "\<not> isSpace b"
    by (metis hd_dropWhile list.distinct(1) list.sel(1))
  with Cons show ?thesis by simp
qed

lemma trim_trim: "trim (trim s) = trim s"
proof -
  have "trim (trim s) = rev (dropWhile isSpace (rev (trim s)))"
    by (simp add: trim_def [of "trim s"] dropWhile_trim)
  also have "rev (trim s) = dropWhile isSpace (rev (dropWhile isSpace s))"
    by (simp add: trim_def)
  also have "rev (dropWhile isSpace (dropWhile isSpace (rev (dropWhile isSpace s)))) = trim s"
    by (simp add: trim_def dropWhile_idem)
  finally show ?thesis .
qed

lemma cleanOCRText_singleSpaced: "singleSpaced (cleanOCRText t)"
  unfolding cleanOCRText_def by (rule singleSpaced_trim) (rule singleSpaced_collapseSpaces)

lemma cleanOCRText_kept: "c \<in> set (cleanOCRText t) \<Longrightarrow> keptChar c"
proof -
  assume "c \<in> set (cleanOCRText t)"
  then have "c \<in> set (collapseSpaces (removeDisallowed (removeBlankLines t)))"
    unfolding cleanOCRText_def using set_trim by blast
  then have "c = 0x20 \<or> c \<in> set (removeDisallowed (removeBlankLines t))"
    using set_collapseSpaces by blast
  then show ?thesis
    using isSpace_kept [OF isSpace_space] by (auto simp: removeDisallowed_def)
qed

lemma removeBlankLines_clean: "removeBlankLines (cleanOCRText t) = cleanOCRText t"
  by (rule removeBlankLines_id) (rule singleSpaced_no_linefeed, rule cleanOCRText_singleSpaced)

lemma removeDisallowed_clean: "removeDisallowed (cleanOCRText t) = cleanOCRText t"
  unfolding removeDisallowed_def by (rule filter_True) (simp add: cleanOCRText_kept)

lemma collapseSpaces_clean: "collapseSpaces (cleanOCRText t) = cleanOCRText t"
  by (rule collapseSpaces_id) (rule cleanOCRText_singleSpaced)

lemma trim_clean: "trim (cleanOCRText t) = cleanOCRText t"
  unfolding cleanOCRText_def by (rule trim_trim)

section \<open>Properties of the text extraction\<close>

lemma docx_class:
  "\<not> startsWith docxMime (js ''image/'')" "docxMime \<noteq> js ''application/pdf''"
  "isWordprocessingml docxMime"
  by (simp_all add: docxMime_def js_def startsWith_def isWordprocessingml_def)

lemma msword_class:
  "\<not> startsWith mswordMime (js ''image/'')" "mswordMime \<noteq> js ''application/pdf''"
  "\<not> isWordprocessingml mswordMime" "isOtherOffice mswordMime"
  by (simp_all add: mswordMime_def js_def startsWith_def isWordprocessingml_def isOtherOffice_def)

lemma removeBlankLines_messyText:
  "removeBlankLines messyText =
     js ''  Ol'' @ [0xE1] @ js '', #1'' @ [0xA] @ js ''  mundo'' @ [0x2028, 0xD, 0xA] @
     js ''*fim*  ''"
  by (simp add: messyText_def isSpace_def js_def)

lemma cleanOCRText_messyText:
  "cleanOCRText messyText = js ''Ol'' @ [0xE1] @ js '', 1 mundo fim''"
  by (simp add: messyText_def cleanOCRText_def removeDisallowed_def trim_def keptChar_def
      isSpace_def isWordChar_def punctuation_def accented_def js_def)

text \<open>
  Claim C10. Cleaning is idempotent: cleaning a cleaned text changes nothing, and each of
  the four stages (blank-line removal, removal of disallowed characters, white-space
  normalisation, trimming) leaves a cleaned text as it is. So every text the advanced
  pass returns for an image is a fixed point of the cleaning.
\<close>

theorem cleanOCRText_idempotent:
  "cleanOCRText (cleanOCRText t) = cleanOCRText t
   \<and> removeBlankLines (cleanOCRText t) = cleanOCRText t
   \<and> removeDisallowed (cleanOCRText t) = cleanOCRText t
   \<and> collapseSpaces (cleanOCRText t) = cleanOCRText t
   \<and> trim (cleanOCRText t) = cleanOCRText t
   \<and> (startsWith m (js ''image/'') \<and> extractTextAdvanced ext p m = Inr r \<longrightarrow>
        cleanOCRText r = r)"
proof -
  have idem: "cleanOCRText (cleanOCRText u) = cleanOCRText u" for u
    unfolding cleanOCRText_def [of "cleanOCRText u"]
    by (simp only: removeBlankLines_clean removeDisallowed_clean collapseSpaces_clean trim_clean)
  have "cleanOCRText r = r"
    if "startsWith m (js ''image/'')" and "extractTextAdvanced ext p m = Inr r"
  proof -
    from that obtain u where "r = cleanOCRText u"
      by (auto simp: extractTextAdvanced_def Let_def split: sum.splits)
    then show ?thesis
      by (simp only: idem)
  qed
  with idem [of t] show ?thesis
    by (simp only: removeBlankLines_clean removeDisallowed_clean collapseSpaces_clean trim_clean)
      blast
qed

theorem cleanOCRText_idempotent_witness:
  "extractTextAdvanced readsMessyText (js ''uploads/2-b.jpg'') jpegMime =
     Inr (js ''Ol'' @ [0xE1] @ js '', 1 mundo fim'') \<and>
   cleanOCRText (js ''Ol'' @ [0xE1] @ js '', 1 mundo fim'') = js ''Ol'' @ [0xE1] @ js '', 1 mundo fim''"
proof -
  have i: "startsWith jpegMime (js ''image/'')"
    by (simp add: jpegMime_def startsWith_def js_def)
  then have e: "extractTextAdvanced readsMessyText (js ''uploads/2-b.jpg'') jpegMime =
      Inr (js ''Ol'' @ [0xE1] @ js '', 1 mundo fim'')"
    by (simp add: extractTextAdvanced_def readsMessyText_def cleanOCRText_messyText)
  with i cleanOCRText_idempotent [of messyText jpegMime readsMessyText "js ''uploads/2-b.jpg''"
      "js ''Ol'' @ [0xE1] @ js '', 1 mundo fim''"]
  show ?thesis
    by blast
qed

text \<open>
  Claim C7, as the code has it. A media type that contains \<open>wordprocessingml\<close> (a .docx
  file) is read by mammoth with no handler of its own: when mammoth throws, the advanced
  pass throws to its caller and the quick pass returns the error text made from the
  message. Only the other Office types (those that contain \<open>document\<close>, \<open>word\<close> or
  \<open>msword\<close>, such as \<open>application/msword\<close>) get the fixed sentinel text when mammoth
  throws, and never throw.
\<close>

theorem word_extraction:
  assumes "\<not> startsWith m (js ''image/'')" and "m \<noteq> js ''application/pdf''"
  shows "(isWordprocessingml m \<longrightarrow>
            extractTextAdvanced ext p m = extractRawText ext p \<and>
            extractText ext p m =
              (case extractRawText ext p of Inl e \<Rightarrow> quickErrorText e | Inr v \<Rightarrow> v)) \<and>
         (\<not> isWordprocessingml m \<and> isOtherOffice m \<longrightarrow>
            extractTextAdvanced ext p m =
              Inr (case extractRawText ext p of Inl e \<Rightarrow> officeAdvancedSentinel | Inr v \<Rightarrow> v) \<and>
            extractText ext p m =
              (case extractRawText ext p of Inl e \<Rightarrow> officeQuickSentinel | Inr v \<Rightarrow> v))"
  using assms
  by (auto simp: extractTextAdvanced_def extractText_def tryExtractText_def split: sum.splits)

theorem word_extraction_witness:
  "extractTextAdvanced failingMammoth (js ''uploads/1-a.doc'') mswordMime =
     Inr officeAdvancedSentinel \<and>
   extractText failingMammoth (js ''uploads/1-a.doc'') mswordMime = officeQuickSentinel \<and>
   extractTextAdvanced readsLongText (js ''uploads/1-a.docx'') docxMime = Inr (js ''Contract A'') \<and>
   extractText readsLongText (js ''uploads/1-a.docx'') docxMime = js ''Contract A''"
  using word_extraction [OF msword_class(1,2), of failingMammoth "js ''uploads/1-a.doc''"]
    word_extraction [OF docx_class(1,2), of readsLongText "js ''uploads/1-a.docx''"]
    msword_class(3,4) docx_class(3)
  by (simp add: failingMammoth_def readsLongText_def)

text \<open>
  The claim as stated fails for a .docx file on which mammoth throws: the advanced pass
  throws, and the quick pass returns a text that is not the sentinel.
\<close>

theorem word_extraction_counterexample:
  "extractTextAdvanced failingMammoth (js ''uploads/1-a.docx'') docxMime =
     Inl (ErrorObj (js ''corrupt'')) \<and>
   extractText failingMammoth (js ''uploads/1-a.docx'') docxMime =
     quickErrorText (ErrorObj (js ''corrupt'')) \<and>
   quickErrorText (ErrorObj (js ''corrupt'')) \<noteq> officeQuickSentinel"
  using docx_class
  apply (simp add: extractTextAdvanced_def extractText_def tryExtractText_def failingMammoth_def)
  apply (simp add: quickErrorText_def officeQuickSentinel_def js_def)
  done

section \<open>Properties of the upload handler\<close>

lemma length_setJob: "length (setJob r f jobs) = length jobs"
  by (simp add: setJob_def)

lemma loopHead_length_pending:
  "\<exists>j\<in>set (queue q). job_status j = Pending \<Longrightarrow>
   length (queue (loopHead now q)) = length (queue q)"
  by (auto simp: loopHead_def length_setJob find_None_iff split: option.splits)

lemma addJob_length: "length (queue (fst (addJob d p m now q))) = Suc (length (queue q))"
proof -
  let ?job = "\<lparr>job_ref = nextRef q, job_id = (d, now), job_documentId = d,
                 job_filePath = p, job_mimeType = m, job_status = Pending,
                 job_createdAt = now, job_processedAt = None, job_error = None\<rparr>"
  let ?q1 = "q\<lparr>queue := queue q @ [?job], nextRef := Suc (nextRef q)\<rparr>"
  have "length (queue (loopHead now (?q1\<lparr>processing := True\<rparr>))) =
        length (queue (?q1\<lparr>processing := True\<rparr>))"
    by (rule loopHead_length_pending) simp
  then show ?thesis
    by (simp add: addJob_def processQueue_def Let_def)
qed

lemma addJob_id: "snd (addJob d p m now q) = (d, now)"
  by (simp add: addJob_def Let_def)

lemma enqueues_image: "enqueuesAtUpload jpegMime t"
  by (simp add: enqueuesAtUpload_def jpegMime_def startsWith_def js_def)

lemma enqueues_images: "startsWith m (js ''image/'') \<Longrightarrow> enqueuesAtUpload m t"
  by (simp add: enqueuesAtUpload_def)

lemma enqueues_pdf: "enqueuesAtUpload pdfMime t = (length t < 100)"
  by (auto simp: enqueuesAtUpload_def pdfMime_def startsWith_def js_def)

lemma quick_pdf:
  "extractText ext p pdfMime = pdfQuickPlaceholder" "length pdfQuickPlaceholder = 57"
  by (simp_all add: extractText_def tryExtractText_def pdfMime_def startsWith_def
      pdfQuickPlaceholder_def js_def)

lemma enqueues_word: "\<not> enqueuesAtUpload docxMime t" "\<not> enqueuesAtUpload mswordMime t"
  by (simp_all add: enqueuesAtUpload_def docxMime_def mswordMime_def startsWith_def js_def)

text \<open>
  Claim C1, as the code has it. The document of an upload is created with the text of
  the quick pass and with the OCR flag false. A job is enqueued exactly when the media
  type starts with \<open>image/\<close> (whatever the length of the quick text), or the media type
  is \<open>application/pdf\<close> and the quick text is shorter than 100 code units (which it
  always is: the quick pass returns a placeholder of 57 code units for a PDF). A job
  that is enqueued adds one record to the queue; otherwise the queue is unchanged. Word
  documents are never enqueued.
\<close>

theorem upload_enqueue:
  assumes "uploadFile ext tCreate tJob meta file name path (q, db) = (document, q', db')"
    and "mime = file_mimetype file" and "quickText = extractText ext path mime"
  shows "extractedText document = Some quickText \<and>
         ocrProcessed document = Some False \<and>
         (enqueuesAtUpload mime quickText \<longrightarrow>
            q' = fst (addJob (doc_id document) path mime tJob q) \<and>
            length (queue q') = Suc (length (queue q))) \<and>
         (\<not> enqueuesAtUpload mime quickText \<longrightarrow> q' = q) \<and>
         (startsWith mime (js ''image/'') \<longrightarrow> enqueuesAtUpload mime quickText) \<and>
         (mime = pdfMime \<longrightarrow> enqueuesAtUpload mime quickText = (length quickText < 100)) \<and>
         (mime = pdfMime \<longrightarrow> quickText = pdfQuickPlaceholder \<and> length quickText = 57) \<and>
         (mime = docxMime \<or> mime = mswordMime \<longrightarrow> \<not> enqueuesAtUpload mime quickText)"
proof -
  from assms have d: "document = fst (createDocument
               \<lparr>doc_id = 0, title = meta_title meta, description = meta_description meta,
                subject = meta_subject meta, tags = meta_tags meta,
                category = meta_category meta, department = meta_department meta,
                documentDate = meta_documentDate meta, fileName = name,
                originalName = file_originalname file, mimeType = mime,
                fileSize = file_size file, filePath = path,
                extractedText = Some quickText, ocrProcessed = Some False,
                createdAt = 0, updatedAt = 0\<rparr> tCreate db)"
    by (auto simp: uploadFile_def Let_def)
  from assms have q': "q' = (if enqueuesAtUpload mime quickText
                   then fst (addJob (doc_id document) path mime tJob q) else q)"
    by (auto simp: uploadFile_def Let_def)
  from d have "extractedText document = Some quickText" "ocrProcessed document = Some False"
    by (simp_all add: createDocument_def Let_def)
  moreover from q' have "enqueuesAtUpload mime quickText \<longrightarrow>
            q' = fst (addJob (doc_id document) path mime tJob q) \<and>
            length (queue q') = Suc (length (queue q))"
    by (simp add: addJob_length)
  moreover from q' have "\<not> enqueuesAtUpload mime quickText \<longrightarrow> q' = q"
    by simp
  moreover have "startsWith mime (js ''image/'') \<longrightarrow> enqueuesAtUpload mime quickText"
    by (simp add: enqueues_images)
  moreover have "mime = pdfMime \<longrightarrow> enqueuesAtUpload mime quickText = (length quickText < 100)"
    by (simp add: enqueues_pdf)
  moreover have "mime = docxMime \<or> mime = mswordMime \<longrightarrow> \<not> enqueuesAtUpload mime quickText"
    by (auto simp: enqueues_word)
  moreover from assms(3)
  have "mime = pdfMime \<longrightarrow> quickText = pdfQuickPlaceholder \<and> length quickText = 57"
    by (simp add: quick_pdf)
  ultimately show ?thesis by blast
qed

lemma trim_longText: "trim longText = longText"
proof -
  have "\<not> isSpace 0x61"
    by (simp add: isSpace_def)
  then have "dropWhile isSpace longText = longText"
    unfolding longText_def by (simp add: dropWhile_eq_self_iff)
  moreover have "rev longText = longText"
    by (simp add: longText_def)
  ultimately show ?thesis by (simp add: trim_def)
qed

lemma quick_longText: "extractText readsLongText p jpegMime = longText"
  by (simp add: extractText_def tryExtractText_def readsLongText_def jpegMime_def
      startsWith_def js_def trim_longText)

lemma quick_docx: "extractText readsLongText p docxMime = js ''Contract A''"
  using docx_class
  by (simp add: extractText_def tryExtractText_def readsLongText_def)

theorem upload_enqueue_witness:
  "length (queue (fst (snd (uploadFile readsLongText 1 2 someMetadata jpegFile
      (js ''1-a.jpg'') (js ''uploads/1-a.jpg'') (emptyQueue, emptyDatabase))))) = 1 \<and>
   fst (snd (uploadFile readsLongText 1 2 someMetadata docxFile
      (js ''1-a.docx'') (js ''uploads/1-a.docx'') (emptyQueue, emptyDatabase))) = emptyQueue \<and>
   extractedText (fst (uploadFile readsLongText 1 2 someMetadata docxFile
      (js ''1-a.docx'') (js ''uploads/1-a.docx'') (emptyQueue, emptyDatabase))) =
     Some (js ''Contract A'')"
proof -
  let ?jpeg = "uploadFile readsLongText 1 2 someMetadata jpegFile
      (js ''1-a.jpg'') (js ''uploads/1-a.jpg'') (emptyQueue, emptyDatabase)"
  let ?docx = "uploadFile readsLongText 1 2 someMetadata docxFile
      (js ''1-a.docx'') (js ''uploads/1-a.docx'') (emptyQueue, emptyDatabase)"
  have j: "?jpeg = (fst ?jpeg, fst (snd ?jpeg), snd (snd ?jpeg))"
    by simp
  have d: "?docx = (fst ?docx, fst (snd ?docx), snd (snd ?docx))"
    by simp
  have mj: "file_mimetype jpegFile = jpegMime" and md: "file_mimetype docxFile = docxMime"
    by (simp_all add: jpegFile_def docxFile_def)
  have ej: "enqueuesAtUpload (file_mimetype jpegFile) t" for t
    by (simp add: mj enqueues_image)
  have ed: "\<not> enqueuesAtUpload (file_mimetype docxFile) t" for t
    by (simp add: md enqueues_word)
  have td: "extractText readsLongText (js ''uploads/1-a.docx'') (file_mimetype docxFile) =
            js ''Contract A''"
    by (simp add: md quick_docx)
  from upload_enqueue [OF j refl refl] ej
  have "length (queue (fst (snd ?jpeg))) = Suc (length (queue emptyQueue))"
    by blast
  moreover from upload_enqueue [OF d refl refl] ed
  have "fst (snd ?docx) = emptyQueue"
    by blast
  moreover from upload_enqueue [OF d refl refl] td
  have "extractedText (fst ?docx) = Some (js ''Contract A'')"
    by simp
  ultimately show ?thesis
    by (simp add: emptyQueue_def)
qed

text \<open>
  The claim as stated fails for a JPEG whose quick text has 100 code units: the text is
  not shorter than 100, and a job is enqueued all the same.
\<close>

theorem upload_enqueue_counterexample:
  "extractText readsLongText (js ''uploads/1-a.jpg'') jpegMime = longText \<and>
   \<not> length longText < 100 \<and>
   length (queue (fst (snd (uploadFile readsLongText 1 2 someMetadata jpegFile (js ''1-a.jpg'')
      (js ''uploads/1-a.jpg'') (emptyQueue, emptyDatabase))))) = 1"
  by (simp add: quick_longText uploadFile_def Let_def jpegFile_def enqueues_image addJob_length)
    (simp add: longText_def emptyQueue_def)

section \<open>The invariant holds in every reachable state\<close>

lemma refs_setJob:
  "(\<And>j. job_ref (f j) = job_ref j) \<Longrightarrow> map job_ref (setJob r f jobs) = map job_ref jobs"
  by (simp add: setJob_def)

lemma set_setJob:
  "j' \<in> set (setJob r f jobs) \<Longrightarrow>
   \<exists>j\<in>set jobs. j' = (if job_ref j = r then f j else j)"
  by (auto simp: setJob_def)

lemma queueInv_finish:
  assumes "distinct (map job_ref (queue q))" and "\<forall>j\<in>set (queue q). job_ref j < nextRef q"
    and "\<forall>j\<in>set (queue q). job_status j \<noteq> Pending \<and> job_status j \<noteq> Processing"
  shows "queueInv (finishQueue now q)"
  using assms by (simp add: queueInv_def finishQueue_def distinct_map_filter)

lemma queueInv_loopHead:
  assumes d: "distinct (map job_ref (queue q))"
    and b: "\<forall>j\<in>set (queue q). job_ref j < nextRef q"
    and p: "processing q"
    and n: "\<forall>j\<in>set (queue q). job_status j \<noteq> Processing"
  shows "queueInv (loopHead now q)"
proof (cases "find (\<lambda>j. job_status j = Pending) (queue q)")
  case None
  then have "\<forall>j\<in>set (queue q). job_status j \<noteq> Pending"
    by (simp add: find_None_iff)
  with d b n have "queueInv (finishQueue now q)"
    by (intro queueInv_finish) auto
  with None show ?thesis
    by (simp add: loopHead_def)
next
  case (Some job)
  then have mem: "job \<in> set (queue q)" and pen: "job_status job = Pending"
    by (auto simp: find_Some_iff dest: nth_mem)
  then have ne: "queue q \<noteq> []"
    by auto
  let ?f = "\<lambda>j. j\<lparr>job_status := Processing\<rparr>"
  let ?jobs = "setJob (job_ref job) ?f (queue q)"
  have refs: "map job_ref ?jobs = map job_ref (queue q)"
    by (rule refs_setJob) simp
  have bound: "\<forall>j\<in>set ?jobs. job_ref j < nextRef q"
    using b by (auto simp: setJob_def)
  have "?f job \<in> set ?jobs"
    using mem by (force simp: setJob_def)
  then have ex: "\<exists>j\<in>set ?jobs. job_ref j = job_ref job \<and> job_status j = Processing"
    by (rule rev_bexI) simp
  have only: "\<forall>j\<in>set ?jobs. job_status j = Processing \<longrightarrow> job_ref j = job_ref job"
    using n by (auto simp: setJob_def)
  from Some ne have "loopHead now q = q\<lparr>queue := ?jobs, worker := AwaitExtract (job_ref job)\<rparr>"
    by (simp add: loopHead_def)
  with d refs bound p ex only show ?thesis
    by (simp add: queueInv_def workerOn_def)
qed

lemma queueInv_busy: "queueInv q \<Longrightarrow> processing q \<Longrightarrow> worker q \<noteq> Idle"
  by (auto simp: queueInv_def)

lemma queueInv_idle:
  "queueInv q \<Longrightarrow> \<not> processing q \<Longrightarrow>
   worker q = Idle \<and> (\<forall>j\<in>set (queue q). job_status j \<noteq> Pending \<and> job_status j \<noteq> Processing)"
  by (cases "worker q") (auto simp: queueInv_def)

lemma queueInv_addJob:
  assumes inv: "queueInv q"
  shows "queueInv (fst (addJob d p m now q))"
proof -
  let ?job = "\<lparr>job_ref = nextRef q, job_id = (d, now), job_documentId = d,
                 job_filePath = p, job_mimeType = m, job_status = Pending,
                 job_createdAt = now, job_processedAt = None, job_error = None\<rparr>"
  let ?q1 = "q\<lparr>queue := queue q @ [?job], nextRef := Suc (nextRef q)\<rparr>"
  from inv have dist: "distinct (map job_ref (queue ?q1))"
    and bound: "\<forall>j\<in>set (queue ?q1). job_ref j < nextRef ?q1"
    by (auto simp: queueInv_def)
  show ?thesis
  proof (cases "processing q")
    case True
    with inv have "worker q \<noteq> Idle"
      by (rule queueInv_busy)
    with inv dist bound True have "queueInv ?q1"
      by (cases "worker q") (auto simp: queueInv_def workerOn_def)
    with True show ?thesis
      by (simp add: addJob_def Let_def)
  next
    case False
    with inv have "\<forall>j\<in>set (queue q). job_status j \<noteq> Processing"
      using queueInv_idle by blast
    then have "\<forall>j\<in>set (queue (?q1\<lparr>processing := True\<rparr>)). job_status j \<noteq> Processing"
      by simp
    with dist bound have "queueInv (loopHead now (?q1\<lparr>processing := True\<rparr>))"
      by (intro queueInv_loopHead) simp_all
    with False show ?thesis
      by (simp add: addJob_def processQueue_def Let_def)
  qed
qed

lemma jobByRef_mem: "jobByRef q r = Some job \<Longrightarrow> job \<in> set (queue q) \<and> job_ref job = r"
  by (auto simp: jobByRef_def find_Some_iff dest: nth_mem)

lemma queueInv_settle:
  assumes inv: "queueInv q" and w: "workerOn (queue q) r" and p: "processing q"
    and f: "\<And>j. job_ref (f j) = job_ref j" "\<And>j. job_status (f j) \<noteq> Processing"
  shows "queueInv (loopHead now (q\<lparr>queue := setJob r f (queue q)\<rparr>))"
proof (rule queueInv_loopHead)
  let ?q = "q\<lparr>queue := setJob r f (queue q)\<rparr>"
  from inv show "distinct (map job_ref (queue ?q))"
    by (simp add: refs_setJob f queueInv_def)
  from inv show "\<forall>j\<in>set (queue ?q). job_ref j < nextRef ?q"
    by (auto simp: setJob_def f queueInv_def)
  from p show "processing ?q"
    by simp
  from w show "\<forall>j\<in>set (queue ?q). job_status j \<noteq> Processing"
    by (auto simp: setJob_def f workerOn_def)
qed

lemma queueInv_extractSettled:
  assumes inv: "queueInv q"
  shows "queueInv (extractSettled ext now q)"
proof (cases "worker q")
  case (AwaitExtract r)
  with inv have w: "workerOn (queue q) r" and p: "processing q"
    by (simp_all add: queueInv_def)
  show ?thesis
  proof (cases "jobByRef q r")
    case None
    with AwaitExtract inv show ?thesis
      by (simp add: extractSettled_def)
  next
    case (Some job)
    show ?thesis
    proof (cases "extractTextAdvanced ext (job_filePath job) (job_mimeType job)")
      case (Inl e)
      have "queueInv (loopHead now (q\<lparr>queue := setJob r
              (\<lambda>j. j\<lparr>job_status := Failed, job_error := Some (jobErrorMessage e),
                     job_processedAt := Some now\<rparr>) (queue q)\<rparr>))"
        using inv w p by (rule queueInv_settle) simp_all
      with AwaitExtract Some Inl show ?thesis
        by (simp add: extractSettled_def)
    next
      case (Inr extracted)
      from inv AwaitExtract have "queueInv (q\<lparr>worker := AwaitUpdate r extracted now\<rparr>)"
        by (simp add: queueInv_def)
      with AwaitExtract Some Inr show ?thesis
        by (simp add: extractSettled_def)
    qed
  qed
next
  case Idle
  with inv show ?thesis
    by (simp add: extractSettled_def)
next
  case (AwaitUpdate r extracted called)
  with inv show ?thesis
    by (simp add: extractSettled_def)
qed

lemma queueInv_updateSettled:
  assumes inv: "queueInv q"
  shows "queueInv (fst (updateSettled now (q, db)))"
proof (cases "worker q")
  case (AwaitUpdate r extracted called)
  with inv have w: "workerOn (queue q) r" and p: "processing q"
    by (simp_all add: queueInv_def)
  show ?thesis
  proof (cases "jobByRef q r")
    case None
    with AwaitUpdate inv show ?thesis
      by (simp add: updateSettled_def)
  next
    case (Some job)
    have "queueInv (loopHead now (q\<lparr>queue := setJob r
            (\<lambda>j. j\<lparr>job_status := Completed, job_processedAt := Some now\<rparr>) (queue q)\<rparr>))"
      using inv w p by (rule queueInv_settle) simp_all
    with AwaitUpdate Some show ?thesis
      by (simp add: updateSettled_def)
  qed
next
  case Idle
  with inv show ?thesis
    by (simp add: updateSettled_def)
next
  case (AwaitExtract r)
  with inv show ?thesis
    by (simp add: updateSettled_def)
qed

lemma queueInv_updateRejected:
  assumes inv: "queueInv q"
  shows "queueInv (updateRejected e now q)"
proof (cases "worker q")
  case (AwaitUpdate r extracted called)
  with inv have w: "workerOn (queue q) r" and p: "processing q"
    by (simp_all add: queueInv_def)
  show ?thesis
  proof (cases "jobByRef q r")
    case None
    with AwaitUpdate inv show ?thesis
      by (simp add: updateRejected_def)
  next
    case (Some job)
    have "queueInv (loopHead now (q\<lparr>queue := setJob r
            (\<lambda>j. j\<lparr>job_status := Failed, job_error := Some (jobErrorMessage e),
                   job_processedAt := Some now\<rparr>) (queue q)\<rparr>))"
      using inv w p by (rule queueInv_settle) simp_all
    with AwaitUpdate Some show ?thesis
      by (simp add: updateRejected_def)
  qed
next
  case Idle
  with inv show ?thesis
    by (simp add: updateRejected_def)
next
  case (AwaitExtract r)
  with inv show ?thesis
    by (simp add: updateRejected_def)
qed

lemma queueInv_step: "queueInv (fst s) \<Longrightarrow> queueInv (fst (step s e))"
  by (cases s; cases e)
    (simp_all add: queueInv_addJob queueInv_extractSettled queueInv_updateSettled
       queueInv_updateRejected)

lemma queueInv_run: "queueInv (fst s) \<Longrightarrow> queueInv (fst (run s evs))"
  unfolding run_def by (induction evs arbitrary: s) (simp_all add: queueInv_step)

lemma queueInv_empty: "queueInv emptyQueue"
  by (simp add: queueInv_def emptyQueue_def)

lemma queueInv_reachable: "queueInv (fst (run (emptyQueue, db) evs))"
  by (rule queueInv_run) (simp add: queueInv_empty)

lemma filter_at_most_one:
  "distinct (map f xs) \<Longrightarrow> \<forall>x\<in>set xs. P x \<longrightarrow> f x = r \<Longrightarrow> length (filter P xs) \<le> 1"
proof (induction xs)
  case Nil
  show ?case by simp
next
  case (Cons x xs)
  show ?case
  proof (cases "P x")
    case True
    with Cons.prems have "f x = r" and "f x \<notin> f ` set xs"
      by auto
    have "\<forall>y\<in>set xs. \<not> P y"
    proof
      fix y
      assume y: "y \<in> set xs"
      show "\<not> P y"
      proof
        assume "P y"
        with y Cons.prems(2) have "f y = r"
          by simp
        with \<open>f x = r\<close> y have "f x \<in> f ` set xs"
          by (metis imageI)
        with \<open>f x \<notin> f ` set xs\<close> show False ..
      qed
    qed
    then have "filter P xs = []"
      by (simp add: filter_empty_conv)
    with True show ?thesis by simp
  next
    case False
    with Cons show ?thesis by simp
  qed
qed

lemma queueInv_one_processing: "queueInv q \<Longrightarrow> countStatus Processing q \<le> 1"
proof -
  assume inv: "queueInv q"
  then have d: "distinct (map job_ref (queue q))"
    by (simp add: queueInv_def)
  from inv obtain r where "\<forall>j\<in>set (queue q). job_status j = Processing \<longrightarrow> job_ref j = r"
    by (cases "worker q") (auto simp: queueInv_def workerOn_def)
  with d show ?thesis
    unfolding countStatus_def by (rule filter_at_most_one)
qed

text \<open>
  Claim C3. Whatever is enqueued, and however the enqueue calls and the completions of
  the two awaited operations of the worker are interleaved, at most one job of the queue
  has the status \<open>Processing\<close>.
\<close>

theorem one_processing: "countStatus Processing (fst (run (emptyQueue, db) evs)) \<le> 1"
  by (rule queueInv_one_processing) (rule queueInv_reachable)

section \<open>What the worker does to a job and its document\<close>

lemma find_filter_keep: "find P xs = Some x \<Longrightarrow> Q x \<Longrightarrow> find P (filter Q xs) = Some x"
  by (induction xs) (auto split: if_splits)

lemma find_setJob_other:
  assumes "\<And>j. job_ref (f j) = job_ref j" and "r \<noteq> r'"
  shows "find (\<lambda>j. job_ref j = r) (setJob r' f jobs) = find (\<lambda>j. job_ref j = r) jobs"
  using assms by (induction jobs) (auto simp: setJob_def)

lemma find_setJob_same:
  assumes "\<And>j. job_ref (f j) = job_ref j" and "find (\<lambda>j. job_ref j = r) jobs = Some job"
  shows "find (\<lambda>j. job_ref j = r) (setJob r f jobs) = Some (f job)"
  using assms by (induction jobs) (auto simp: setJob_def split: if_splits)

lemma distinct_refs_eq:
  "distinct (map job_ref jobs) \<Longrightarrow> a \<in> set jobs \<Longrightarrow> b \<in> set jobs \<Longrightarrow>
   job_ref a = job_ref b \<Longrightarrow> a = b"
  by (meson distinct_map inj_onD)

lemma jobByRef_loopHead:
  assumes d: "distinct (map job_ref (queue q))" and j: "jobByRef q r = Some job"
    and np: "job_status job \<noteq> Pending" and ret: "retained now job"
  shows "jobByRef (loopHead now q) r = Some job"
proof (cases "find (\<lambda>j. job_status j = Pending) (queue q)")
  case None
  from j ret have "find (\<lambda>j. job_ref j = r) (filter (retained now) (queue q)) = Some job"
    unfolding jobByRef_def by (rule find_filter_keep)
  moreover from j have "queue q \<noteq> []"
    by (auto simp: jobByRef_def)
  ultimately show ?thesis
    using None by (simp add: loopHead_def jobByRef_def finishQueue_def)
next
  case (Some next_job)
  then have mem: "next_job \<in> set (queue q)" and pen: "job_status next_job = Pending"
    by (auto simp: find_Some_iff dest: nth_mem)
  from j have jm: "job \<in> set (queue q)" and jr: "job_ref job = r"
    by (simp_all add: jobByRef_mem)
  from pen np have "next_job \<noteq> job"
    by auto
  with d mem jm jr have "r \<noteq> job_ref next_job"
    using distinct_refs_eq by blast
  then have "find (\<lambda>j. job_ref j = r)
               (setJob (job_ref next_job) (\<lambda>j. j\<lparr>job_status := Processing\<rparr>) (queue q)) =
             find (\<lambda>j. job_ref j = r) (queue q)"
    by (intro find_setJob_other) simp_all
  moreover from mem have "queue q \<noteq> []"
    by auto
  ultimately show ?thesis
    using Some j by (simp add: loopHead_def jobByRef_def)
qed

lemma jobByRef_settle:
  assumes inv: "queueInv q" and j: "jobByRef q r = Some job"
    and f: "\<And>j. job_ref (f j) = job_ref j" "job_status (f job) \<noteq> Pending"
      "job_processedAt (f job) = Some now"
  shows "jobByRef (loopHead now (q\<lparr>queue := setJob r f (queue q)\<rparr>)) r = Some (f job)"
proof (rule jobByRef_loopHead)
  let ?q = "q\<lparr>queue := setJob r f (queue q)\<rparr>"
  from inv show "distinct (map job_ref (queue ?q))"
    by (simp add: refs_setJob f queueInv_def)
  from j show "jobByRef ?q r = Some (f job)"
    by (simp add: jobByRef_def find_setJob_same f)
  show "job_status (f job) \<noteq> Pending"
    by (rule f)
  show "retained now (f job)"
    by (simp add: retained_def f)
qed

lemma update_outcome:
  assumes inv: "queueInv q" and j: "jobByRef q r = Some job"
    and w: "worker q = AwaitUpdate r extracted called"
  shows "table_rows (snd (step (q, db) (UpdateSettled now))) =
           map (\<lambda>d. if doc_id d = job_documentId job
                     then d\<lparr>extractedText := Some extracted, ocrProcessed := Some True,
                            updatedAt := called\<rparr>
                     else d) (table_rows db) \<and>
         jobByRef (fst (step (q, db) (UpdateSettled now))) r =
           Some (job\<lparr>job_status := Completed, job_processedAt := Some now\<rparr>) \<and>
         snd (step (q, db) (UpdateRejected e now)) = db \<and>
         jobByRef (fst (step (q, db) (UpdateRejected e now))) r =
           Some (job\<lparr>job_status := Failed, job_error := Some (jobErrorMessage e),
                     job_processedAt := Some now\<rparr>)"
proof -
  have failed: "jobByRef (loopHead now (q\<lparr>queue := setJob r
           (\<lambda>j. j\<lparr>job_status := Failed, job_error := Some (jobErrorMessage e),
                  job_processedAt := Some now\<rparr>) (queue q)\<rparr>)) r =
         Some (job\<lparr>job_status := Failed, job_error := Some (jobErrorMessage e),
                    job_processedAt := Some now\<rparr>)"
    using inv j by (rule jobByRef_settle) simp_all
  have completed: "jobByRef (loopHead now (q\<lparr>queue := setJob r
           (\<lambda>j. j\<lparr>job_status := Completed, job_processedAt := Some now\<rparr>) (queue q)\<rparr>)) r =
         Some (job\<lparr>job_status := Completed, job_processedAt := Some now\<rparr>)"
    using inv j by (rule jobByRef_settle) simp_all
  have "table_rows (snd (step (q, db) (UpdateSettled now))) =
           map (\<lambda>d. if doc_id d = job_documentId job
                     then d\<lparr>extractedText := Some extracted, ocrProcessed := Some True,
                            updatedAt := called\<rparr>
                     else d) (table_rows db)"
    using j w by (simp add: updateSettled_def updateDocument_def Let_def)
  moreover have "jobByRef (fst (step (q, db) (UpdateSettled now))) r =
           Some (job\<lparr>job_status := Completed, job_processedAt := Some now\<rparr>)"
    using j w completed by (simp add: updateSettled_def)
  moreover have "snd (step (q, db) (UpdateRejected e now)) = db"
    by simp
  moreover have "jobByRef (fst (step (q, db) (UpdateRejected e now))) r =
           Some (job\<lparr>job_status := Failed, job_error := Some (jobErrorMessage e),
                     job_processedAt := Some now\<rparr>)"
    using j w failed by (simp add: updateRejected_def)
  ultimately show ?thesis
    by (intro conjI)
qed

text \<open>
  Claim C2, as the code has it. Take a state of the queue reached by any sequence of
  events, and the job the worker is on. When its extraction settles with a throw, the
  job is marked failed with the message (\<open>Unknown error\<close> for a thrown value that is no
  \<open>Error\<close>) and the time, and the table of documents is as before. When it settles with
  a text, nothing is marked yet: the call goes on to the update of the document and is
  suspended on it, with the text and the reading \<open>now\<close> of the clock at that call. When
  that update is fulfilled, the rows of the owning document have the text as their
  extracted text, the OCR flag true and the reading of the clock at the call (not the
  one at the settlement) as \<open>updatedAt\<close>, every other row is as before, and the job is
  marked completed at the time of the settlement. When that update is rejected, the job
  is marked failed with the message of the rejection, although its extraction had
  succeeded, and the table of documents is as before. The last part states the same from
  end to end, for an extraction that gives a text at \<open>now\<close> and an update that settles
  at \<open>later\<close>.
\<close>

theorem worker_outcome:
  assumes "q = fst (run (emptyQueue, db0) evs)" and "jobByRef q r = Some job"
    and "outcome = extractTextAdvanced ext (job_filePath job) (job_mimeType job)"
  shows "(worker q = AwaitExtract r \<and> outcome = Inl e \<longrightarrow>
            snd (step (q, db) (ExtractSettled ext now)) = db \<and>
            jobByRef (fst (step (q, db) (ExtractSettled ext now))) r =
              Some (job\<lparr>job_status := Failed, job_error := Some (jobErrorMessage e),
                        job_processedAt := Some now\<rparr>)) \<and>
         (worker q = AwaitExtract r \<and> outcome = Inr extracted \<longrightarrow>
            step (q, db) (ExtractSettled ext now) =
              (q\<lparr>worker := AwaitUpdate r extracted now\<rparr>, db)) \<and>
         (worker q = AwaitUpdate r extracted called \<longrightarrow>
            table_rows (snd (step (q, db) (UpdateSettled now))) =
              map (\<lambda>d. if doc_id d = job_documentId job
                        then d\<lparr>extractedText := Some extracted, ocrProcessed := Some True,
                               updatedAt := called\<rparr>
                        else d) (table_rows db) \<and>
            jobByRef (fst (step (q, db) (UpdateSettled now))) r =
              Some (job\<lparr>job_status := Completed, job_processedAt := Some now\<rparr>)) \<and>
         (worker q = AwaitUpdate r extracted called \<longrightarrow>
            snd (step (q, db) (UpdateRejected e now)) = db \<and>
            jobByRef (fst (step (q, db) (UpdateRejected e now))) r =
              Some (job\<lparr>job_status := Failed, job_error := Some (jobErrorMessage e),
                        job_processedAt := Some now\<rparr>)) \<and>
         (worker q = AwaitExtract r \<and> outcome = Inr extracted \<longrightarrow>
            table_rows (snd (run (q, db) [ExtractSettled ext now, UpdateSettled later])) =
              map (\<lambda>d. if doc_id d = job_documentId job
                        then d\<lparr>extractedText := Some extracted, ocrProcessed := Some True,
                               updatedAt := now\<rparr>
                        else d) (table_rows db) \<and>
            jobByRef (fst (run (q, db) [ExtractSettled ext now, UpdateSettled later])) r =
              Some (job\<lparr>job_status := Completed, job_processedAt := Some later\<rparr>) \<and>
            snd (run (q, db) [ExtractSettled ext now, UpdateRejected e later]) = db \<and>
            jobByRef (fst (run (q, db) [ExtractSettled ext now, UpdateRejected e later])) r =
              Some (job\<lparr>job_status := Failed, job_error := Some (jobErrorMessage e),
                        job_processedAt := Some later\<rparr>))"
proof -
  from assms(1) have inv: "queueInv q"
    by (simp add: queueInv_reachable)
  have failed: "jobByRef (loopHead now (q\<lparr>queue := setJob r
           (\<lambda>j. j\<lparr>job_status := Failed, job_error := Some (jobErrorMessage e),
                  job_processedAt := Some now\<rparr>) (queue q)\<rparr>)) r =
         Some (job\<lparr>job_status := Failed, job_error := Some (jobErrorMessage e),
                    job_processedAt := Some now\<rparr>)"
    using inv assms(2) by (rule jobByRef_settle) simp_all
  have a: "worker q = AwaitExtract r \<and> outcome = Inl e \<longrightarrow>
            snd (step (q, db) (ExtractSettled ext now)) = db \<and>
            jobByRef (fst (step (q, db) (ExtractSettled ext now))) r =
              Some (job\<lparr>job_status := Failed, job_error := Some (jobErrorMessage e),
                        job_processedAt := Some now\<rparr>)"
    using assms(2,3) failed by (simp add: extractSettled_def)
  have b: "worker q = AwaitExtract r \<and> outcome = Inr extracted \<longrightarrow>
            step (q, db) (ExtractSettled ext now) =
              (q\<lparr>worker := AwaitUpdate r extracted now\<rparr>, db)"
    using assms(2,3) by (simp add: extractSettled_def)
  have cd: "worker q = AwaitUpdate r extracted called \<Longrightarrow>
            table_rows (snd (step (q, db) (UpdateSettled now))) =
              map (\<lambda>d. if doc_id d = job_documentId job
                        then d\<lparr>extractedText := Some extracted, ocrProcessed := Some True,
                               updatedAt := called\<rparr>
                        else d) (table_rows db) \<and>
            jobByRef (fst (step (q, db) (UpdateSettled now))) r =
              Some (job\<lparr>job_status := Completed, job_processedAt := Some now\<rparr>) \<and>
            snd (step (q, db) (UpdateRejected e now)) = db \<and>
            jobByRef (fst (step (q, db) (UpdateRejected e now))) r =
              Some (job\<lparr>job_status := Failed, job_error := Some (jobErrorMessage e),
                        job_processedAt := Some now\<rparr>)"
    using inv assms(2) by (rule update_outcome)
  have ef: "table_rows (snd (run (q, db) [ExtractSettled ext now, UpdateSettled later])) =
              map (\<lambda>d. if doc_id d = job_documentId job
                        then d\<lparr>extractedText := Some extracted, ocrProcessed := Some True,
                               updatedAt := now\<rparr>
                        else d) (table_rows db) \<and>
            jobByRef (fst (run (q, db) [ExtractSettled ext now, UpdateSettled later])) r =
              Some (job\<lparr>job_status := Completed, job_processedAt := Some later\<rparr>) \<and>
            snd (run (q, db) [ExtractSettled ext now, UpdateRejected e later]) = db \<and>
            jobByRef (fst (run (q, db) [ExtractSettled ext now, UpdateRejected e later])) r =
              Some (job\<lparr>job_status := Failed, job_error := Some (jobErrorMessage e),
                        job_processedAt := Some later\<rparr>)"
    if w: "worker q = AwaitExtract r" and o: "outcome = Inr extracted"
  proof -
    let ?q1 = "q\<lparr>worker := AwaitUpdate r extracted now\<rparr>"
    from w o b have s1: "step (q, db) (ExtractSettled ext now) = (?q1, db)"
      by blast
    from inv w have inv1: "queueInv ?q1"
      by (simp add: queueInv_def)
    from assms(2) have j1: "jobByRef ?q1 r = Some job"
      by (simp add: jobByRef_def)
    have w1: "worker ?q1 = AwaitUpdate r extracted now"
      by simp
    have r1: "run (q, db) [ExtractSettled ext now, ev] = step (?q1, db) ev" for ev
      using s1 by (simp add: run_def)
    from update_outcome [OF inv1 j1 w1, of db later e] show ?thesis
      by (simp only: r1)
  qed
  from a b cd ef show ?thesis by blast
qed

lemma run_enqueue_docx:
  "fst (run (emptyQueue, emptyDatabase) [Enqueue 1 (js ''uploads/1-a.docx'') docxMime 5]) =
   \<lparr>queue = [docxJob], processing = True, worker = AwaitExtract 0, nextRef = 1\<rparr>"
  by (simp add: run_def addJob_def processQueue_def loopHead_def setJob_def emptyQueue_def
      docxJob_def Let_def)

lemma advanced_docx:
  "extractTextAdvanced readsLongText p docxMime = Inr (js ''Contract A'')"
  "extractTextAdvanced failingMammoth p docxMime = Inl (ErrorObj (js ''corrupt''))"
  using docx_class
  by (simp_all add: extractTextAdvanced_def readsLongText_def failingMammoth_def)

lemma run_extract_docx:
  "fst (run (emptyQueue, emptyDatabase)
     [Enqueue 1 (js ''uploads/1-a.docx'') docxMime 5, ExtractSettled readsLongText 7]) =
   \<lparr>queue = [docxJob], processing = True, worker = AwaitUpdate 0 (js ''Contract A'') 7,
    nextRef = 1\<rparr>"
proof -
  have "run (emptyQueue, emptyDatabase)
          [Enqueue 1 (js ''uploads/1-a.docx'') docxMime 5, ExtractSettled readsLongText 7] =
        step (fst (run (emptyQueue, emptyDatabase)
                [Enqueue 1 (js ''uploads/1-a.docx'') docxMime 5]), emptyDatabase)
          (ExtractSettled readsLongText 7)"
    by (simp add: run_def)
  then show ?thesis
    by (simp add: run_enqueue_docx extractSettled_def jobByRef_def docxJob_def advanced_docx)
qed

text \<open>
  The four cases on the job of a Word document enqueued at time 5: mammoth throws at
  time 9; mammoth gives a text at time 7; the update issued at 7 is fulfilled at 9, and
  the row carries 7 as \<open>updatedAt\<close>; the update issued at 7 is rejected at 9.
\<close>

theorem worker_outcome_witness:
  "snd (step (\<lparr>queue = [docxJob], processing = True, worker = AwaitExtract 0, nextRef = 1\<rparr>,
             oneDocument) (ExtractSettled failingMammoth 9)) = oneDocument \<and>
   jobByRef (fst (step (\<lparr>queue = [docxJob], processing = True, worker = AwaitExtract 0,
                        nextRef = 1\<rparr>, oneDocument) (ExtractSettled failingMammoth 9))) 0 =
     Some (docxJob\<lparr>job_status := Failed, job_error := Some (js ''corrupt''),
                   job_processedAt := Some 9\<rparr>) \<and>
   step (\<lparr>queue = [docxJob], processing = True, worker = AwaitExtract 0, nextRef = 1\<rparr>,
         oneDocument) (ExtractSettled readsLongText 7) =
     (\<lparr>queue = [docxJob], processing = True, worker = AwaitUpdate 0 (js ''Contract A'') 7,
       nextRef = 1\<rparr>, oneDocument) \<and>
   table_rows (snd (step (\<lparr>queue = [docxJob], processing = True,
                          worker = AwaitUpdate 0 (js ''Contract A'') 7, nextRef = 1\<rparr>,
                         oneDocument) (UpdateSettled 9))) =
     [docxDocument\<lparr>extractedText := Some (js ''Contract A''), ocrProcessed := Some True,
                   updatedAt := 7\<rparr>] \<and>
   jobByRef (fst (step (\<lparr>queue = [docxJob], processing = True,
                         worker = AwaitUpdate 0 (js ''Contract A'') 7, nextRef = 1\<rparr>,
                        oneDocument) (UpdateSettled 9))) 0 =
     Some (docxJob\<lparr>job_status := Completed, job_processedAt := Some 9\<rparr>) \<and>
   snd (step (\<lparr>queue = [docxJob], processing = True,
              worker = AwaitUpdate 0 (js ''Contract A'') 7, nextRef = 1\<rparr>, oneDocument)
          (UpdateRejected (ErrorObj (js ''connection terminated'')) 9)) = oneDocument \<and>
   jobByRef (fst (step (\<lparr>queue = [docxJob], processing = True,
                         worker = AwaitUpdate 0 (js ''Contract A'') 7, nextRef = 1\<rparr>,
                        oneDocument)
                    (UpdateRejected (ErrorObj (js ''connection terminated'')) 9))) 0 =
     Some (docxJob\<lparr>job_status := Failed, job_error := Some (js ''connection terminated''),
                   job_processedAt := Some 9\<rparr>) \<and>
   table_rows (snd (run (\<lparr>queue = [docxJob], processing = True, worker = AwaitExtract 0,
                          nextRef = 1\<rparr>, oneDocument)
                     [ExtractSettled readsLongText 7, UpdateSettled 9])) =
     [docxDocument\<lparr>extractedText := Some (js ''Contract A''), ocrProcessed := Some True,
                   updatedAt := 7\<rparr>] \<and>
   jobByRef (fst (run (\<lparr>queue = [docxJob], processing = True, worker = AwaitExtract 0,
                        nextRef = 1\<rparr>, oneDocument)
                   [ExtractSettled readsLongText 7,
                    UpdateRejected (ErrorObj (js ''connection terminated'')) 9])) 0 =
     Some (docxJob\<lparr>job_status := Failed, job_error := Some (js ''connection terminated''),
                   job_processedAt := Some 9\<rparr>)"
proof -
  let ?q1 = "\<lparr>queue = [docxJob], processing = True, worker = AwaitExtract 0, nextRef = 1\<rparr>"
  let ?q2 = "\<lparr>queue = [docxJob], processing = True,
             worker = AwaitUpdate 0 (js ''Contract A'') 7, nextRef = 1\<rparr>"
  let ?lost = "ErrorObj (js ''connection terminated'')"
  have j1: "jobByRef ?q1 0 = Some docxJob" and j2: "jobByRef ?q2 0 = Some docxJob"
    by (simp_all add: jobByRef_def docxJob_def)
  have o: "Inl (ErrorObj (js ''corrupt'')) =
           extractTextAdvanced failingMammoth (job_filePath docxJob) (job_mimeType docxJob)"
    by (simp add: docxJob_def advanced_docx)
  have o': "Inr (js ''Contract A'') =
           extractTextAdvanced readsLongText (job_filePath docxJob) (job_mimeType docxJob)"
    by (simp add: docxJob_def advanced_docx)
  have m: "jobErrorMessage (ErrorObj (js ''corrupt'')) = js ''corrupt''"
    "jobErrorMessage ?lost = js ''connection terminated''"
    by (simp_all add: jobErrorMessage_def)
  have k: "job_documentId docxJob = 1" "doc_id docxDocument = 1"
    by (simp_all add: docxJob_def docxDocument_def)
  note a = worker_outcome [OF run_enqueue_docx [symmetric] j1 o,
      where e = "ErrorObj (js ''corrupt'')" and db = oneDocument and now = 9, THEN conjunct1]
  note b = worker_outcome [OF run_enqueue_docx [symmetric] j1 o',
      where extracted = "js ''Contract A''" and db = oneDocument and now = 7,
      THEN conjunct2, THEN conjunct1]
  note c = worker_outcome [OF run_extract_docx [symmetric] j2 refl,
      where extracted = "js ''Contract A''" and called = 7 and db = oneDocument and now = 9,
      THEN conjunct2, THEN conjunct2, THEN conjunct1]
  note d = worker_outcome [OF run_extract_docx [symmetric] j2 refl,
      where extracted = "js ''Contract A''" and called = 7 and db = oneDocument and now = 9
        and e = ?lost,
      THEN conjunct2, THEN conjunct2, THEN conjunct2, THEN conjunct1]
  note e = worker_outcome [OF run_enqueue_docx [symmetric] j1 o',
      where extracted = "js ''Contract A''" and db = oneDocument and now = 7 and later = 9
        and e = ?lost,
      THEN conjunct2, THEN conjunct2, THEN conjunct2, THEN conjunct2]
  from a
  have "snd (step (?q1, oneDocument) (ExtractSettled failingMammoth 9)) = oneDocument \<and>
        jobByRef (fst (step (?q1, oneDocument) (ExtractSettled failingMammoth 9))) 0 =
          Some (docxJob\<lparr>job_status := Failed, job_error := Some (js ''corrupt''),
                        job_processedAt := Some 9\<rparr>)"
    by (simp add: m)
  moreover from b
  have "step (?q1, oneDocument) (ExtractSettled readsLongText 7) = (?q2, oneDocument)"
    by simp
  moreover from c
  have "table_rows (snd (step (?q2, oneDocument) (UpdateSettled 9))) =
          [docxDocument\<lparr>extractedText := Some (js ''Contract A''), ocrProcessed := Some True,
                        updatedAt := 7\<rparr>] \<and>
        jobByRef (fst (step (?q2, oneDocument) (UpdateSettled 9))) 0 =
          Some (docxJob\<lparr>job_status := Completed, job_processedAt := Some 9\<rparr>)"
    by (simp add: k oneDocument_def)
  moreover from d
  have "snd (step (?q2, oneDocument) (UpdateRejected ?lost 9)) = oneDocument \<and>
        jobByRef (fst (step (?q2, oneDocument) (UpdateRejected ?lost 9))) 0 =
          Some (docxJob\<lparr>job_status := Failed,
                        job_error := Some (js ''connection terminated''),
                        job_processedAt := Some 9\<rparr>)"
    by (simp add: m)
  moreover from e
  have "table_rows (snd (run (?q1, oneDocument)
            [ExtractSettled readsLongText 7, UpdateSettled 9])) =
          [docxDocument\<lparr>extractedText := Some (js ''Contract A''), ocrProcessed := Some True,
                        updatedAt := 7\<rparr>] \<and>
        jobByRef (fst (run (?q1, oneDocument)
            [ExtractSettled readsLongText 7, UpdateRejected ?lost 9])) 0 =
          Some (docxJob\<lparr>job_status := Failed,
                        job_error := Some (js ''connection terminated''),
                        job_processedAt := Some 9\<rparr>)"
    by (simp add: k m oneDocument_def)
  ultimately show ?thesis
    by (intro conjI) simp_all
qed

text \<open>
  The claim as stated fails when the store rejects the update: the extraction of the
  Word document gives the text \<open>Contract A\<close> at time 7, the update of the document is
  rejected at time 9, and the job is marked failed with the message of the rejection;
  the document has neither the text nor the flag.
\<close>

theorem worker_outcome_counterexample:
  "extractTextAdvanced readsLongText (js ''uploads/1-a.docx'') docxMime =
     Inr (js ''Contract A'') \<and>
   queue (fst (run (emptyQueue, oneDocument)
     [Enqueue 1 (js ''uploads/1-a.docx'') docxMime 5, ExtractSettled readsLongText 7,
      UpdateRejected (ErrorObj (js ''connection terminated'')) 9])) =
     [docxJob\<lparr>job_status := Failed, job_error := Some (js ''connection terminated''),
              job_processedAt := Some 9\<rparr>] \<and>
   snd (run (emptyQueue, oneDocument)
     [Enqueue 1 (js ''uploads/1-a.docx'') docxMime 5, ExtractSettled readsLongText 7,
      UpdateRejected (ErrorObj (js ''connection terminated'')) 9]) = oneDocument \<and>
   map extractedText (table_rows oneDocument) = [Some []] \<and>
   map ocrProcessed (table_rows oneDocument) = [Some False]"
proof -
  have "extractTextAdvanced readsLongText (js ''uploads/1-a.docx'') docxMime =
        Inr (js ''Contract A'')"
    by (rule advanced_docx)
  then show ?thesis
    by (simp add: run_def addJob_def processQueue_def loopHead_def finishQueue_def retained_def
        setJob_def emptyQueue_def extractSettled_def updateRejected_def jobByRef_def
        jobErrorMessage_def docxJob_def oneDocument_def docxDocument_def Let_def)
qed

section \<open>Properties of the clean-up\<close>

lemma loopHead_no_pending:
  "\<forall>j\<in>set (queue q). job_status j \<noteq> Pending \<Longrightarrow> loopHead now q = finishQueue now q"
  by (simp add: loopHead_def find_None_iff [THEN iffD2])

lemma getJobStatus_mem: "getJobStatus q i = Some j \<Longrightarrow> j \<in> set (queue q)"
  by (auto simp: getJobStatus_def find_Some_iff dest: nth_mem)

lemma ids_setJob:
  "(\<And>j. job_id (f j) = job_id j) \<Longrightarrow> map job_id (setJob r f jobs) = map job_id jobs"
  by (simp add: setJob_def)

lemma loopHead_pending:
  assumes "\<exists>j\<in>set (queue q). job_status j = Pending"
  shows "map job_ref (queue (loopHead now q)) = map job_ref (queue q) \<and>
         map job_id (queue (loopHead now q)) = map job_id (queue q)"
proof (cases "find (\<lambda>j. job_status j = Pending) (queue q)")
  case None
  with assms show ?thesis
    by (auto simp: find_None_iff)
next
  case (Some job)
  moreover from assms have "queue q \<noteq> []"
    by auto
  ultimately show ?thesis
    by (simp add: loopHead_def refs_setJob ids_setJob)
qed

lemma loopHead_idle:
  "worker (loopHead now q) = Idle \<Longrightarrow> queue (loopHead now q) = filter (retained now) (queue q)"
  by (simp add: loopHead_def finishQueue_def split: if_splits option.splits)

lemma loopHead_kept_or_purged:
  assumes "j \<in> set (queue q)"
  shows "(\<exists>j'\<in>set (queue (loopHead now q)). job_ref j' = job_ref j \<and> job_id j' = job_id j) \<or>
         (worker (loopHead now q) = Idle \<and> \<not> retained now j)"
proof (cases "find (\<lambda>j. job_status j = Pending) (queue q)")
  case None
  from assms have "queue q \<noteq> []"
    by auto
  with None have "loopHead now q = finishQueue now q"
    by (simp add: loopHead_def)
  with assms show ?thesis
    by (cases "retained now j") (auto simp: finishQueue_def)
next
  case (Some job)
  let ?f = "\<lambda>j. j\<lparr>job_status := Processing\<rparr>"
  let ?jm = "if job_ref j = job_ref job then ?f j else j"
  from assms have "queue q \<noteq> []"
    by auto
  with Some have "queue (loopHead now q) = setJob (job_ref job) ?f (queue q)"
    by (simp add: loopHead_def)
  moreover from assms have "?jm \<in> set (setJob (job_ref job) ?f (queue q))"
    by (auto simp: setJob_def)
  moreover have "job_ref ?jm = job_ref j \<and> job_id ?jm = job_id j"
    by simp
  ultimately show ?thesis
    by metis
qed

lemma settle_kept_or_purged:
  assumes j: "j \<in> set (queue q)"
    and f: "\<And>j. job_ref (f j) = job_ref j" "\<And>j. job_id (f j) = job_id j"
      "\<And>j. retained now (f j)"
  shows "(\<exists>j'\<in>set (queue (loopHead now (q\<lparr>queue := setJob r f (queue q)\<rparr>))).
            job_ref j' = job_ref j \<and> job_id j' = job_id j) \<or>
         (worker (loopHead now (q\<lparr>queue := setJob r f (queue q)\<rparr>)) = Idle \<and> \<not> retained now j)"
proof -
  let ?jm = "if job_ref j = r then f j else j"
  let ?q = "q\<lparr>queue := setJob r f (queue q)\<rparr>"
  from j have "?jm \<in> set (queue ?q)"
    by (auto simp: setJob_def)
  then have "(\<exists>j'\<in>set (queue (loopHead now ?q)). job_ref j' = job_ref ?jm \<and> job_id j' = job_id ?jm) \<or>
         (worker (loopHead now ?q) = Idle \<and> \<not> retained now ?jm)"
    by (rule loopHead_kept_or_purged)
  moreover have "job_ref ?jm = job_ref j" "job_id ?jm = job_id j"
    by (simp_all add: f)
  moreover have "\<not> retained now ?jm \<Longrightarrow> \<not> retained now j"
    by (simp add: f split: if_splits)
  ultimately show ?thesis
    by metis
qed

lemma loopHead_pending_busy:
  assumes "\<exists>j\<in>set (queue q). job_status j = Pending"
  shows "worker (loopHead now q) \<noteq> Idle"
proof (cases "find (\<lambda>j. job_status j = Pending) (queue q)")
  case None
  with assms show ?thesis
    by (auto simp: find_None_iff)
next
  case (Some job)
  moreover from assms have "queue q \<noteq> []"
    by auto
  ultimately show ?thesis
    by (simp add: loopHead_def)
qed

lemma addJob_kept:
  assumes "j \<in> set (queue q)"
  shows "\<exists>j'\<in>set (queue (fst (addJob d p m now q))). job_ref j' = job_ref j \<and> job_id j' = job_id j"
proof -
  let ?job = "\<lparr>job_ref = nextRef q, job_id = (d, now), job_documentId = d,
                 job_filePath = p, job_mimeType = m, job_status = Pending,
                 job_createdAt = now, job_processedAt = None, job_error = None\<rparr>"
  let ?q1 = "q\<lparr>queue := queue q @ [?job], nextRef := Suc (nextRef q)\<rparr>"
  let ?q2 = "q\<lparr>queue := queue q @ [?job], nextRef := Suc (nextRef q), processing := True\<rparr>"
  have "\<exists>j\<in>set (queue ?q2). job_status j = Pending"
    by simp
  then have "worker (loopHead now ?q2) \<noteq> Idle"
    by (rule loopHead_pending_busy)
  moreover from assms have "j \<in> set (queue ?q2)"
    by simp
  then have "(\<exists>j'\<in>set (queue (loopHead now ?q2)). job_ref j' = job_ref j \<and> job_id j' = job_id j) \<or>
         (worker (loopHead now ?q2) = Idle \<and> \<not> retained now j)"
    by (rule loopHead_kept_or_purged)
  ultimately have a: "\<exists>j'\<in>set (queue (loopHead now ?q2)). job_ref j' = job_ref j \<and> job_id j' = job_id j"
    by blast
  from assms have b: "\<exists>j'\<in>set (queue ?q1). job_ref j' = job_ref j \<and> job_id j' = job_id j"
    by auto
  from a b show ?thesis
    by (simp add: addJob_def processQueue_def Let_def)
qed


lemma getJobStatus_some:
  "\<exists>j'\<in>set (queue q). job_id j' = i \<Longrightarrow> getJobStatus q i \<noteq> None"
  by (auto simp: getJobStatus_def find_None_iff)

lemma step_kept_or_purged:
  assumes j: "j \<in> set (queue q)"
  shows "(\<exists>j'\<in>set (queue (fst (step (q, db) e))). job_ref j' = job_ref j \<and> job_id j' = job_id j) \<or>
         (worker q \<noteq> Idle \<and> worker (fst (step (q, db) e)) = Idle \<and> \<not> retained (eventClock e) j)"
proof -
  from j have same: "\<exists>j'\<in>set (queue q). job_ref j' = job_ref j \<and> job_id j' = job_id j"
    by blast
  have failed: "(\<exists>j'\<in>set (queue (loopHead now (q\<lparr>queue := setJob r
             (\<lambda>j. j\<lparr>job_status := Failed, job_error := Some (jobErrorMessage err),
                    job_processedAt := Some now\<rparr>) (queue q)\<rparr>))).
            job_ref j' = job_ref j \<and> job_id j' = job_id j) \<or>
         (worker (loopHead now (q\<lparr>queue := setJob r
             (\<lambda>j. j\<lparr>job_status := Failed, job_error := Some (jobErrorMessage err),
                    job_processedAt := Some now\<rparr>) (queue q)\<rparr>)) = Idle \<and> \<not> retained now j)"
    for r err now
    using j by (rule settle_kept_or_purged) (simp_all add: retained_def)
  have completed: "(\<exists>j'\<in>set (queue (loopHead now (q\<lparr>queue := setJob r
             (\<lambda>j. j\<lparr>job_status := Completed, job_processedAt := Some now\<rparr>) (queue q)\<rparr>))).
            job_ref j' = job_ref j \<and> job_id j' = job_id j) \<or>
         (worker (loopHead now (q\<lparr>queue := setJob r
             (\<lambda>j. j\<lparr>job_status := Completed, job_processedAt := Some now\<rparr>) (queue q)\<rparr>)) = Idle \<and>
          \<not> retained now j)"
    for r now
    using j by (rule settle_kept_or_purged) (simp_all add: retained_def)
  show ?thesis
  proof (cases e)
    case (Enqueue d p m now)
    with j show ?thesis
      by (simp add: addJob_kept)
  next
    case (ExtractSettled ext now)
    show ?thesis
    proof (cases "worker q")
      case Idle
      with ExtractSettled same show ?thesis
        by (simp add: extractSettled_def)
    next
      case (AwaitUpdate r extracted called)
      with ExtractSettled same show ?thesis
        by (simp add: extractSettled_def)
    next
      case (AwaitExtract r)
      show ?thesis
      proof (cases "jobByRef q r")
        case None
        with AwaitExtract ExtractSettled same show ?thesis
          by (simp add: extractSettled_def)
      next
        case (Some job)
        show ?thesis
        proof (cases "extractTextAdvanced ext (job_filePath job) (job_mimeType job)")
          case (Inr extracted)
          with AwaitExtract ExtractSettled Some same show ?thesis
            by (simp add: extractSettled_def)
        next
          case (Inl err)
          with AwaitExtract ExtractSettled Some failed [of now r err] show ?thesis
            by (simp add: extractSettled_def)
        qed
      qed
    qed
  next
    case (UpdateSettled now)
    show ?thesis
    proof (cases "worker q")
      case Idle
      with UpdateSettled same show ?thesis
        by (simp add: updateSettled_def)
    next
      case (AwaitExtract r)
      with UpdateSettled same show ?thesis
        by (simp add: updateSettled_def)
    next
      case (AwaitUpdate r extracted called)
      show ?thesis
      proof (cases "jobByRef q r")
        case None
        with AwaitUpdate UpdateSettled same show ?thesis
          by (simp add: updateSettled_def)
      next
        case (Some job)
        with AwaitUpdate UpdateSettled completed [of now r] show ?thesis
          by (simp add: updateSettled_def)
      qed
    qed
  next
    case (UpdateRejected err now)
    show ?thesis
    proof (cases "worker q")
      case Idle
      with UpdateRejected same show ?thesis
        by (simp add: updateRejected_def)
    next
      case (AwaitExtract r)
      with UpdateRejected same show ?thesis
        by (simp add: updateRejected_def)
    next
      case (AwaitUpdate r extracted called)
      show ?thesis
      proof (cases "jobByRef q r")
        case None
        with AwaitUpdate UpdateRejected same show ?thesis
          by (simp add: updateRejected_def)
      next
        case (Some job)
        with AwaitUpdate UpdateRejected failed [of now r err] show ?thesis
          by (simp add: updateRejected_def)
      qed
    qed
  qed
qed

lemma loopHead_idle_retained:
  "worker (loopHead now q) = Idle \<Longrightarrow> j \<in> set (queue (loopHead now q)) \<Longrightarrow> retained now j"
  by (simp add: loopHead_idle)

lemma step_idle_retained:
  assumes w: "worker q \<noteq> Idle" and w': "worker (fst (step (q, db) e)) = Idle"
    and j: "j \<in> set (queue (fst (step (q, db) e)))"
  shows "retained (eventClock e) j"
proof (cases e)
  case (Enqueue d p m now)
  let ?job = "\<lparr>job_ref = nextRef q, job_id = (d, now), job_documentId = d,
                 job_filePath = p, job_mimeType = m, job_status = Pending,
                 job_createdAt = now, job_processedAt = None, job_error = None\<rparr>"
  let ?q2 = "q\<lparr>queue := queue q @ [?job], nextRef := Suc (nextRef q), processing := True\<rparr>"
  show ?thesis
  proof (cases "processing q")
    case True
    with Enqueue w w' show ?thesis
      by (simp add: addJob_def Let_def)
  next
    case False
    with Enqueue w' j have "worker (loopHead now ?q2) = Idle" "j \<in> set (queue (loopHead now ?q2))"
      by (simp_all add: addJob_def processQueue_def Let_def)
    then have "retained now j"
      by (rule loopHead_idle_retained)
    with Enqueue show ?thesis by simp
  qed
next
  case (ExtractSettled ext now)
  show ?thesis
  proof (cases "worker q")
    case Idle
    with w show ?thesis by simp
  next
    case (AwaitUpdate r extracted called)
    with ExtractSettled w' show ?thesis
      by (simp add: extractSettled_def)
  next
    case (AwaitExtract r)
    show ?thesis
    proof (cases "jobByRef q r")
      case None
      with AwaitExtract ExtractSettled w' show ?thesis
        by (simp add: extractSettled_def)
    next
      case (Some job)
      show ?thesis
      proof (cases "extractTextAdvanced ext (job_filePath job) (job_mimeType job)")
        case (Inr extracted)
        with AwaitExtract ExtractSettled Some w' show ?thesis
          by (simp add: extractSettled_def)
      next
        case (Inl err)
        with AwaitExtract ExtractSettled Some w' j have "retained now j"
          by (simp add: extractSettled_def loopHead_idle_retained)
        with ExtractSettled show ?thesis by simp
      qed
    qed
  qed
next
  case (UpdateSettled now)
  show ?thesis
  proof (cases "worker q")
    case Idle
    with w show ?thesis by simp
  next
    case (AwaitExtract r)
    with UpdateSettled w' show ?thesis
      by (simp add: updateSettled_def)
  next
    case (AwaitUpdate r extracted called)
    show ?thesis
    proof (cases "jobByRef q r")
      case None
      with AwaitUpdate UpdateSettled w' show ?thesis
        by (simp add: updateSettled_def)
    next
      case (Some job)
      with AwaitUpdate UpdateSettled w' j have "retained now j"
        by (simp add: updateSettled_def loopHead_idle_retained)
      with UpdateSettled show ?thesis by simp
    qed
  qed
next
  case (UpdateRejected err now)
  show ?thesis
  proof (cases "worker q")
    case Idle
    with w show ?thesis by simp
  next
    case (AwaitExtract r)
    with UpdateRejected w' show ?thesis
      by (simp add: updateRejected_def)
  next
    case (AwaitUpdate r extracted called)
    show ?thesis
    proof (cases "jobByRef q r")
      case None
      with AwaitUpdate UpdateRejected w' show ?thesis
        by (simp add: updateRejected_def)
    next
      case (Some job)
      with AwaitUpdate UpdateRejected w' j have "retained now j"
        by (simp add: updateRejected_def loopHead_idle_retained)
      with UpdateRejected show ?thesis by simp
    qed
  qed
qed


lemma run_no_cleanup:
  "noCleanUp (q, db) evs \<Longrightarrow> j \<in> set (queue q) \<Longrightarrow>
   \<exists>j'\<in>set (queue (fst (run (q, db) evs))). job_ref j' = job_ref j \<and> job_id j' = job_id j"
proof (induction evs arbitrary: q db j)
  case Nil
  then show ?case
    by (auto simp: run_def)
next
  case (Cons e evs)
  obtain q' db' where s': "step (q, db) e = (q', db')"
    by (cases "step (q, db) e")
  from Cons.prems(1) s' have n: "\<not> (worker q \<noteq> Idle \<and> worker q' = Idle)"
    and rest: "noCleanUp (q', db') evs"
    by simp_all
  from Cons.prems(2)
  have "(\<exists>j'\<in>set (queue (fst (step (q, db) e))). job_ref j' = job_ref j \<and> job_id j' = job_id j) \<or>
        (worker q \<noteq> Idle \<and> worker (fst (step (q, db) e)) = Idle \<and> \<not> retained (eventClock e) j)"
    by (rule step_kept_or_purged)
  with n s' obtain j' where j': "j' \<in> set (queue q')"
    and same: "job_ref j' = job_ref j" "job_id j' = job_id j"
    by auto
  from rest j'
  have "\<exists>j''\<in>set (queue (fst (run (q', db') evs))). job_ref j'' = job_ref j' \<and> job_id j'' = job_id j'"
    by (rule Cons.IH)
  moreover have "run (q, db) (e # evs) = run (q', db') evs"
    by (simp add: run_def s')
  ultimately show ?case
    by (simp add: same)
qed

lemma not_retained:
  "\<not> retained now j \<Longrightarrow>
   (job_status j = Completed \<or> job_status j = Failed) \<and>
   (\<forall>t. job_processedAt j = Some t \<longrightarrow> t \<le> now - 3600000)"
  by (cases "job_status j") (auto simp: retained_def split: option.splits)

text \<open>
  Claim C8, as the code has it. The clean-up is the code after the loop of
  \<open>processQueue\<close>; there is no other sweep. Executed at time \<open>now\<close>, it removes every
  completed or failed job whose completion time lies more than one hour (3600000 ms)
  before \<open>now\<close>, and no status query returns such a job any more; every pending or
  processing job stays. The head of the loop executes it when no job is pending; when a
  job is pending it goes on with that job, the worker stays busy and no record leaves
  the queue. Over any step from any state of the queue, a record of the queue stays in
  it with its id, and the status query with that id finds a record, unless the step is
  one that ends the run of the worker (it is busy before and idle after) and the record
  is a completed or failed one whose completion time is at least one hour before the
  clock of the step. After a step that ends the run of the worker, no other record is in
  the queue or returned by a status query than those the filter retains. Over a run of
  any length in which no step ends the run of the worker, every record stays and can be
  queried, however old it is.
\<close>

theorem cleanup_purges:
  "(\<forall>j\<in>set (queue q).
      (job_status j = Completed \<or> job_status j = Failed) \<and>
      (\<exists>t. job_processedAt j = Some t \<and> t < now - 3600000) \<longrightarrow>
      j \<notin> set (queue (finishQueue now q)) \<and>
      (\<forall>i. getJobStatus (finishQueue now q) i \<noteq> Some j)) \<and>
   (\<forall>j\<in>set (queue q).
      job_status j = Pending \<or> job_status j = Processing \<longrightarrow>
      j \<in> set (queue (finishQueue now q))) \<and>
   ((\<forall>j\<in>set (queue q). job_status j \<noteq> Pending) \<longrightarrow> loopHead now q = finishQueue now q) \<and>
   ((\<exists>j\<in>set (queue q). job_status j = Pending) \<longrightarrow>
      worker (loopHead now q) \<noteq> Idle \<and>
      map job_ref (queue (loopHead now q)) = map job_ref (queue q) \<and>
      map job_id (queue (loopHead now q)) = map job_id (queue q)) \<and>
   (\<forall>j\<in>set (queue q).
      ((\<exists>j'\<in>set (queue (fst (step (q, db) e))). job_ref j' = job_ref j \<and> job_id j' = job_id j) \<and>
       getJobStatus (fst (step (q, db) e)) (job_id j) \<noteq> None) \<or>
      (worker q \<noteq> Idle \<and> worker (fst (step (q, db) e)) = Idle \<and>
       (job_status j = Completed \<or> job_status j = Failed) \<and>
       (\<forall>t. job_processedAt j = Some t \<longrightarrow> t \<le> eventClock e - 3600000))) \<and>
   (worker q \<noteq> Idle \<and> worker (fst (step (q, db) e)) = Idle \<longrightarrow>
      (\<forall>j\<in>set (queue (fst (step (q, db) e))). retained (eventClock e) j) \<and>
      (\<forall>i j. getJobStatus (fst (step (q, db) e)) i = Some j \<longrightarrow> retained (eventClock e) j)) \<and>
   (noCleanUp (q, db) evs \<longrightarrow>
      (\<forall>j\<in>set (queue q).
         (\<exists>j'\<in>set (queue (fst (run (q, db) evs))). job_ref j' = job_ref j \<and> job_id j' = job_id j) \<and>
         getJobStatus (fst (run (q, db) evs)) (job_id j) \<noteq> None))"
proof -
  have gone: "j \<notin> set (queue (finishQueue now q))"
    if "job_status j = Completed \<or> job_status j = Failed"
      and "\<exists>t. job_processedAt j = Some t \<and> t < now - 3600000" for j
    using that by (auto simp: finishQueue_def retained_def)
  then have "\<forall>i. getJobStatus (finishQueue now q) i \<noteq> Some j"
    if "job_status j = Completed \<or> job_status j = Failed"
      and "\<exists>t. job_processedAt j = Some t \<and> t < now - 3600000" for j
    using that getJobStatus_mem by blast
  with gone have c1: "\<forall>j\<in>set (queue q).
      (job_status j = Completed \<or> job_status j = Failed) \<and>
      (\<exists>t. job_processedAt j = Some t \<and> t < now - 3600000) \<longrightarrow>
      j \<notin> set (queue (finishQueue now q)) \<and>
      (\<forall>i. getJobStatus (finishQueue now q) i \<noteq> Some j)"
    by blast
  have c2: "\<forall>j\<in>set (queue q).
      job_status j = Pending \<or> job_status j = Processing \<longrightarrow>
      j \<in> set (queue (finishQueue now q))"
    by (auto simp: finishQueue_def retained_def)
  have c3: "(\<forall>j\<in>set (queue q). job_status j \<noteq> Pending) \<longrightarrow>
      loopHead now q = finishQueue now q"
    by (simp add: loopHead_no_pending)
  have c4: "(\<exists>j\<in>set (queue q). job_status j = Pending) \<longrightarrow>
      worker (loopHead now q) \<noteq> Idle \<and>
      map job_ref (queue (loopHead now q)) = map job_ref (queue q) \<and>
      map job_id (queue (loopHead now q)) = map job_id (queue q)"
    using loopHead_pending [of q now] loopHead_pending_busy [of q now] by blast
  have c5: "\<forall>j\<in>set (queue q).
      ((\<exists>j'\<in>set (queue (fst (step (q, db) e))). job_ref j' = job_ref j \<and> job_id j' = job_id j) \<and>
       getJobStatus (fst (step (q, db) e)) (job_id j) \<noteq> None) \<or>
      (worker q \<noteq> Idle \<and> worker (fst (step (q, db) e)) = Idle \<and>
       (job_status j = Completed \<or> job_status j = Failed) \<and>
       (\<forall>t. job_processedAt j = Some t \<longrightarrow> t \<le> eventClock e - 3600000))"
  proof
    fix j
    assume "j \<in> set (queue q)"
    then have "(\<exists>j'\<in>set (queue (fst (step (q, db) e))). job_ref j' = job_ref j \<and> job_id j' = job_id j) \<or>
         (worker q \<noteq> Idle \<and> worker (fst (step (q, db) e)) = Idle \<and> \<not> retained (eventClock e) j)"
      by (rule step_kept_or_purged)
    then show "((\<exists>j'\<in>set (queue (fst (step (q, db) e))). job_ref j' = job_ref j \<and> job_id j' = job_id j) \<and>
       getJobStatus (fst (step (q, db) e)) (job_id j) \<noteq> None) \<or>
      (worker q \<noteq> Idle \<and> worker (fst (step (q, db) e)) = Idle \<and>
       (job_status j = Completed \<or> job_status j = Failed) \<and>
       (\<forall>t. job_processedAt j = Some t \<longrightarrow> t \<le> eventClock e - 3600000))"
    proof
      assume k: "\<exists>j'\<in>set (queue (fst (step (q, db) e))). job_ref j' = job_ref j \<and> job_id j' = job_id j"
      then have "\<exists>j'\<in>set (queue (fst (step (q, db) e))). job_id j' = job_id j"
        by blast
      then have "getJobStatus (fst (step (q, db) e)) (job_id j) \<noteq> None"
        by (rule getJobStatus_some)
      with k show ?thesis
        by blast
    next
      assume "worker q \<noteq> Idle \<and> worker (fst (step (q, db) e)) = Idle \<and> \<not> retained (eventClock e) j"
      then show ?thesis
        using not_retained [of "eventClock e" j] by blast
    qed
  qed
  have r: "\<forall>j\<in>set (queue (fst (step (q, db) e))). retained (eventClock e) j"
    if "worker q \<noteq> Idle \<and> worker (fst (step (q, db) e)) = Idle"
    using that step_idle_retained [of q db e] by blast
  then have "\<forall>i j. getJobStatus (fst (step (q, db) e)) i = Some j \<longrightarrow> retained (eventClock e) j"
    if "worker q \<noteq> Idle \<and> worker (fst (step (q, db) e)) = Idle"
    using that getJobStatus_mem by blast
  with r have c6: "worker q \<noteq> Idle \<and> worker (fst (step (q, db) e)) = Idle \<longrightarrow>
      (\<forall>j\<in>set (queue (fst (step (q, db) e))). retained (eventClock e) j) \<and>
      (\<forall>i j. getJobStatus (fst (step (q, db) e)) i = Some j \<longrightarrow> retained (eventClock e) j)"
    by blast
  have c7: "noCleanUp (q, db) evs \<longrightarrow>
      (\<forall>j\<in>set (queue q).
         (\<exists>j'\<in>set (queue (fst (run (q, db) evs))). job_ref j' = job_ref j \<and> job_id j' = job_id j) \<and>
         getJobStatus (fst (run (q, db) evs)) (job_id j) \<noteq> None)"
  proof (intro impI ballI)
    fix j
    assume "noCleanUp (q, db) evs" and "j \<in> set (queue q)"
    then have k: "\<exists>j'\<in>set (queue (fst (run (q, db) evs))). job_ref j' = job_ref j \<and> job_id j' = job_id j"
      by (rule run_no_cleanup)
    then have "\<exists>j'\<in>set (queue (fst (run (q, db) evs))). job_id j' = job_id j"
      by blast
    then have "getJobStatus (fst (run (q, db) evs)) (job_id j) \<noteq> None"
      by (rule getJobStatus_some)
    with k show "(\<exists>j'\<in>set (queue (fst (run (q, db) evs))). job_ref j' = job_ref j \<and> job_id j' = job_id j) \<and>
         getJobStatus (fst (run (q, db) evs)) (job_id j) \<noteq> None"
      by blast
  qed
  from c1 c2 c3 c4 c5 c6 c7 show ?thesis
    by (intro conjI)
qed


text \<open>
  On a queue reached by a run: the first job failed at time 1, the second was enqueued
  two hours later and is being processed. When its extraction fails at 7200001 the run
  of the worker ends: the first job is purged, the second, just failed, is retained. When
  instead a third job is enqueued, no clean-up is executed and the first job can still be
  queried.
\<close>

lemma run_stale:
  "fst (run (emptyQueue, emptyDatabase)
     [Enqueue 1 (js ''uploads/1-a.docx'') docxMime 0, ExtractSettled failingMammoth 1,
      Enqueue 2 (js ''uploads/2-b.docx'') docxMime 7200000]) = staleQueue"
proof -
  have "extractTextAdvanced failingMammoth (js ''uploads/1-a.docx'') docxMime =
        Inl (ErrorObj (js ''corrupt''))"
    by (rule advanced_docx)
  then show ?thesis
    by (simp add: run_def addJob_def processQueue_def loopHead_def finishQueue_def retained_def
        setJob_def emptyQueue_def extractSettled_def jobByRef_def jobErrorMessage_def
        staleJob_def lateJob_def staleQueue_def Let_def)
qed

lemma step_stale:
  "extractSettled failingMammoth 7200001 staleQueue =
   \<lparr>queue = [lateJob\<lparr>job_status := Failed, job_error := Some (js ''corrupt''),
                      job_processedAt := Some 7200001\<rparr>],
    processing = False, worker = Idle, nextRef = 2\<rparr>"
proof -
  have "extractTextAdvanced failingMammoth (js ''uploads/2-b.docx'') docxMime =
        Inl (ErrorObj (js ''corrupt''))"
    by (rule advanced_docx)
  then show ?thesis
    by (simp add: loopHead_def finishQueue_def retained_def setJob_def extractSettled_def
        jobByRef_def jobErrorMessage_def staleJob_def lateJob_def staleQueue_def)
qed

lemma enqueue_stale:
  "fst (addJob 3 (js ''uploads/3-c.docx'') docxMime 7200002 staleQueue) =
   staleQueue\<lparr>queue := [staleJob, lateJob,
       \<lparr>job_ref = 2, job_id = (3, 7200002), job_documentId = 3,
        job_filePath = js ''uploads/3-c.docx'', job_mimeType = docxMime, job_status = Pending,
        job_createdAt = 7200002, job_processedAt = None, job_error = None\<rparr>],
     nextRef := 3\<rparr>"
  by (simp add: addJob_def staleQueue_def Let_def)

theorem cleanup_purges_witness:
  "fst (run (emptyQueue, emptyDatabase)
     [Enqueue 1 (js ''uploads/1-a.docx'') docxMime 0, ExtractSettled failingMammoth 1,
      Enqueue 2 (js ''uploads/2-b.docx'') docxMime 7200000]) = staleQueue \<and>
   staleJob \<notin> set (queue (finishQueue 7200001 staleQueue)) \<and>
   getJobStatus (finishQueue 7200001 staleQueue) (1, 0) \<noteq> Some staleJob \<and>
   lateJob \<in> set (queue (finishQueue 7200001 staleQueue)) \<and>
   loopHead 7200001 staleQueue = finishQueue 7200001 staleQueue \<and>
   worker (fst (step (staleQueue, emptyDatabase) (ExtractSettled failingMammoth 7200001))) = Idle \<and>
   getJobStatus (fst (step (staleQueue, emptyDatabase) (ExtractSettled failingMammoth 7200001)))
     (1, 0) = None \<and>
   getJobStatus (fst (step (staleQueue, emptyDatabase) (ExtractSettled failingMammoth 7200001)))
     (2, 7200000) \<noteq> None \<and>
   retained 7200001 (lateJob\<lparr>job_status := Failed, job_error := Some (js ''corrupt''),
                             job_processedAt := Some 7200001\<rparr>) \<and>
   noCleanUp (staleQueue, emptyDatabase) [Enqueue 3 (js ''uploads/3-c.docx'') docxMime 7200002] \<and>
   getJobStatus (fst (run (staleQueue, emptyDatabase)
     [Enqueue 3 (js ''uploads/3-c.docx'') docxMime 7200002])) (1, 0) \<noteq> None"
proof -
  let ?e = "ExtractSettled failingMammoth 7200001"
  let ?evs = "[Enqueue 3 (js ''uploads/3-c.docx'') docxMime 7200002]"
  note t = cleanup_purges [where q = staleQueue and now = 7200001 and db = emptyDatabase
      and e = ?e and evs = ?evs]
  have mem: "staleJob \<in> set (queue staleQueue)" "lateJob \<in> set (queue staleQueue)"
    by (simp_all add: staleQueue_def)
  have st: "job_status staleJob = Failed" "job_processedAt staleJob = Some 1"
    "job_status lateJob = Processing" "(1::int) < 7200001 - 3600000"
    "job_id staleJob = (1, 0)" "job_id lateJob = (2, 7200000)"
    by (simp_all add: staleJob_def lateJob_def)
  have np: "\<forall>j\<in>set (queue staleQueue). job_status j \<noteq> Pending"
    by (simp add: staleQueue_def staleJob_def lateJob_def)
  have w: "worker staleQueue \<noteq> Idle"
    by (simp add: staleQueue_def)
  have w': "worker (fst (step (staleQueue, emptyDatabase) ?e)) = Idle"
    by (simp add: step_stale)
  have "worker (fst (addJob 3 (js ''uploads/3-c.docx'') docxMime 7200002 staleQueue)) \<noteq> Idle"
    unfolding enqueue_stale by (simp add: staleQueue_def)
  then have nc: "noCleanUp (staleQueue, emptyDatabase) ?evs"
    by simp
  note t1 = t [THEN conjunct1]
  note t2 = t [THEN conjunct2, THEN conjunct1]
  note t3 = t [THEN conjunct2, THEN conjunct2, THEN conjunct1]
  note t5 = t [THEN conjunct2, THEN conjunct2, THEN conjunct2, THEN conjunct2, THEN conjunct1]
  note t6 = t [THEN conjunct2, THEN conjunct2, THEN conjunct2, THEN conjunct2, THEN conjunct2,
      THEN conjunct1]
  note t7 = t [THEN conjunct2, THEN conjunct2, THEN conjunct2, THEN conjunct2, THEN conjunct2,
      THEN conjunct2]
  have a: "staleJob \<notin> set (queue (finishQueue 7200001 staleQueue)) \<and>
        getJobStatus (finishQueue 7200001 staleQueue) (1, 0) \<noteq> Some staleJob"
    using t1 [rule_format, OF mem(1)] st(1,2,4) by blast
  have b: "lateJob \<in> set (queue (finishQueue 7200001 staleQueue))"
    using t2 [rule_format, OF mem(2)] st(3) by blast
  have c: "loopHead 7200001 staleQueue = finishQueue 7200001 staleQueue"
    using t3 np by blast
  have d: "getJobStatus (fst (step (staleQueue, emptyDatabase) ?e)) (job_id lateJob) \<noteq> None"
    using t5 [rule_format, OF mem(2)] st(3) by auto
  have "\<forall>j\<in>set (queue (fst (step (staleQueue, emptyDatabase) ?e))). retained (eventClock ?e) j"
    using t6 w w' by blast
  then have e: "retained 7200001 (lateJob\<lparr>job_status := Failed,
        job_error := Some (js ''corrupt''), job_processedAt := Some 7200001\<rparr>)"
    by (simp add: step_stale)
  have f: "getJobStatus (fst (run (staleQueue, emptyDatabase) ?evs)) (job_id staleJob) \<noteq> None"
    using t7 nc mem(1) by blast
  have g: "getJobStatus (fst (step (staleQueue, emptyDatabase) ?e)) (1, 0) = None"
    by (simp add: step_stale getJobStatus_def lateJob_def)
  from a b c d e f g w' nc run_stale show ?thesis
    by (simp add: st)
qed

text \<open>
  The claim as stated fails between two clean-ups: a job that failed at time 1 is kept
  by the clean-up that follows at once, and when a second job is enqueued two hours
  later (at 7200000 ms) the loop starts on it without any clean-up. The failed job,
  older than one hour by then, is still in the queue, and the status query returns it.
\<close>

theorem cleanup_purges_counterexample:
  "getJobStatus
     (fst (run (emptyQueue, emptyDatabase)
        [Enqueue 1 (js ''uploads/1-a.docx'') docxMime 0, ExtractSettled failingMammoth 1,
         Enqueue 2 (js ''uploads/2-b.jpg'') jpegMime 7200000]))
     (1, 0) = Some staleJob \<and>
   job_status staleJob = Failed \<and> job_processedAt staleJob = Some 1 \<and>
   (1 :: int) < 7200000 - 3600000"
proof -
  have "extractTextAdvanced failingMammoth (js ''uploads/1-a.docx'') docxMime =
        Inl (ErrorObj (js ''corrupt''))"
    by (rule advanced_docx)
  then show ?thesis
    by (simp add: run_def addJob_def processQueue_def loopHead_def finishQueue_def retained_def
        setJob_def emptyQueue_def extractSettled_def jobByRef_def getJobStatus_def
        jobErrorMessage_def staleJob_def Let_def)
qed

section \<open>Properties of the reprocess handler\<close>

text \<open>
  Claim C9. A reprocess request for a document that exists, whose stored file is not on
  disk, is answered with status 404 and the message \<open>File not found on disk\<close>, and the
  queue is left as it was.
\<close>

theorem reprocess_missing_file:
  assumes "getDocument db i = Some document" and "\<not> existsSync (filePath document)"
  shows "reprocess existsSync now (Some i) (q, db) =
           (Response 404 (js ''File not found on disk'') None, q)"
  using assms by (simp add: reprocess_def)

theorem reprocess_missing_file_witness:
  "reprocess (\<lambda>p. False) 9 (Some 1) (agedQueue, oneDocument) =
     (Response 404 (js ''File not found on disk'') None, agedQueue)"
proof -
  have "getDocument oneDocument 1 = Some docxDocument"
    by (simp add: getDocument_def oneDocument_def docxDocument_def)
  then show ?thesis
    by (rule reprocess_missing_file) simp
qed

section \<open>Properties of the job records\<close>

lemma returnedIds_append: "returnedIds (xs @ ys) = returnedIds xs @ returnedIds ys"
proof (induction xs)
  case Nil
  show ?case by simp
next
  case (Cons e xs)
  then show ?case by (cases e) simp_all
qed

lemma loopHead_jobs:
  assumes d: "distinct (map job_ref (queue q))" and m: "j' \<in> set (queue (loopHead now q))"
  shows "\<exists>j\<in>set (queue q). j' = j \<or> (job_status j = Pending \<and> j' = j\<lparr>job_status := Processing\<rparr>)"
proof (cases "find (\<lambda>j. job_status j = Pending) (queue q)")
  case None
  with m have "j' \<in> set (queue q)"
    by (auto simp: loopHead_def finishQueue_def split: if_splits)
  then show ?thesis by blast
next
  case (Some next_job)
  then have mem: "next_job \<in> set (queue q)" and pen: "job_status next_job = Pending"
    by (auto simp: find_Some_iff dest: nth_mem)
  then have "queue q \<noteq> []"
    by auto
  with Some m have "j' \<in> set (setJob (job_ref next_job) (\<lambda>j. j\<lparr>job_status := Processing\<rparr>) (queue q))"
    by (simp add: loopHead_def)
  then obtain j where j: "j \<in> set (queue q)"
    and j': "j' = (if job_ref j = job_ref next_job then j\<lparr>job_status := Processing\<rparr> else j)"
    using set_setJob by blast
  show ?thesis
  proof (cases "job_ref j = job_ref next_job")
    case True
    with d j mem have "j = next_job"
      by (rule distinct_refs_eq)
    with j j' pen True show ?thesis by auto
  next
    case False
    with j j' show ?thesis by auto
  qed
qed

lemma settle_jobs:
  assumes inv: "queueInv q" and w: "workerOn (queue q) r"
    and m: "j' \<in> set (setJob r f (queue q))"
  shows "\<exists>j\<in>set (queue q). j' = j \<or> (job_status j = Processing \<and> j' = f j)"
proof -
  from m obtain j where j: "j \<in> set (queue q)" and j': "j' = (if job_ref j = r then f j else j)"
    using set_setJob by blast
  from w obtain k where k: "k \<in> set (queue q)" "job_ref k = r" "job_status k = Processing"
    by (auto simp: workerOn_def)
  from inv have d: "distinct (map job_ref (queue q))"
    by (simp add: queueInv_def)
  show ?thesis
  proof (cases "job_ref j = r")
    case True
    with d j k have "j = k"
      by (intro distinct_refs_eq [of "queue q"]) simp_all
    with j j' k True show ?thesis by auto
  next
    case False
    with j j' show ?thesis by auto
  qed
qed

lemma loopHead_keeps:
  assumes "j \<in> set (queue q)" and "retained now j"
  shows "jobPresent (job_ref j) (loopHead now q)"
proof (cases "find (\<lambda>j. job_status j = Pending) (queue q)")
  case None
  with assms show ?thesis
    by (auto simp: loopHead_def finishQueue_def jobPresent_def)
next
  case (Some next_job)
  let ?f = "\<lambda>j. j\<lparr>job_status := Processing\<rparr>"
  from assms(1) have "(if job_ref j = job_ref next_job then ?f j else j)
      \<in> set (setJob (job_ref next_job) ?f (queue q))"
    by (auto simp: setJob_def)
  then have "\<exists>j'\<in>set (setJob (job_ref next_job) ?f (queue q)). job_ref j' = job_ref j"
    by (rule rev_bexI) simp
  with Some assms(1) show ?thesis
    by (auto simp: loopHead_def jobPresent_def)
qed

lemma nextRef_loopHead: "nextRef (loopHead now q) = nextRef q"
  by (simp add: loopHead_def finishQueue_def split: option.splits)

lemma nextRef_step: "nextRef (fst (step s e)) = nextRef (fst s) + length (returnedIds [e])"
  by (cases s; cases e)
    (simp_all add: addJob_def processQueue_def extractSettled_def updateSettled_def
      updateRejected_def nextRef_loopHead Let_def
      split: worker.splits option.splits sum.splits)

text \<open>Where a job of the queue after a step comes from.\<close>

lemma addJob_jobs:
  assumes inv: "queueInv q" and m: "j' \<in> set (queue (fst (addJob d p m now q)))"
  shows "(\<exists>j\<in>set (queue q). job_ref j' = job_ref j \<and> job_id j' = job_id j \<and>
            moveForward (job_status j) (job_status j')) \<or>
         (job_ref j' = nextRef q \<and> job_id j' = (d, now))"
proof -
  let ?job = "\<lparr>job_ref = nextRef q, job_id = (d, now), job_documentId = d,
                 job_filePath = p, job_mimeType = m, job_status = Pending,
                 job_createdAt = now, job_processedAt = None, job_error = None\<rparr>"
  let ?q1 = "q\<lparr>queue := queue q @ [?job], nextRef := Suc (nextRef q)\<rparr>"
  from inv have dist: "distinct (map job_ref (queue (?q1\<lparr>processing := True\<rparr>)))"
    by (auto simp: queueInv_def)
  have "\<exists>j\<in>set (queue q @ [?job]). j' = j \<or>
          (job_status j = Pending \<and> j' = j\<lparr>job_status := Processing\<rparr>)"
  proof (cases "processing q")
    case True
    with m have "j' \<in> set (queue q @ [?job])"
      by (simp add: addJob_def Let_def)
    then show ?thesis by blast
  next
    case False
    with m have "j' \<in> set (queue (loopHead now (?q1\<lparr>processing := True\<rparr>)))"
      by (simp add: addJob_def processQueue_def Let_def)
    from loopHead_jobs [OF dist this] show ?thesis
      by simp
  qed
  then obtain j where jm: "j \<in> set (queue q @ [?job])"
    and j': "j' = j \<or> (job_status j = Pending \<and> j' = j\<lparr>job_status := Processing\<rparr>)"
    by blast
  from jm have j: "j \<in> set (queue q) \<or> j = ?job"
    by (simp only: set_append set_simps Un_iff insert_iff empty_iff) blast
  from j show ?thesis
  proof
    assume "j \<in> set (queue q)"
    moreover from j' have "job_ref j' = job_ref j \<and> job_id j' = job_id j \<and>
        moveForward (job_status j) (job_status j')"
      by (auto simp: moveForward_def)
    ultimately show ?thesis by blast
  next
    assume new: "j = ?job"
    from j' have "job_ref j' = job_ref j \<and> job_id j' = job_id j"
      by auto
    with new have "job_ref j' = nextRef q \<and> job_id j' = (d, now)"
      by simp
    then show ?thesis by blast
  qed
qed

lemma settle_loop_jobs:
  assumes inv: "queueInv q" and w: "workerOn (queue q) r"
    and f: "\<And>j. job_ref (f j) = job_ref j" "\<And>j. job_id (f j) = job_id j"
      "\<And>j. job_status (f j) = Completed \<or> job_status (f j) = Failed"
    and m: "j' \<in> set (queue (loopHead now (q\<lparr>queue := setJob r f (queue q)\<rparr>)))"
  shows "\<exists>j\<in>set (queue q). job_ref j' = job_ref j \<and> job_id j' = job_id j \<and>
           moveForward (job_status j) (job_status j')"
proof -
  let ?q = "q\<lparr>queue := setJob r f (queue q)\<rparr>"
  from inv have "distinct (map job_ref (queue ?q))"
    by (simp add: refs_setJob f queueInv_def)
  from loopHead_jobs [OF this m] obtain jm where jm: "jm \<in> set (setJob r f (queue q))"
    and j': "j' = jm \<or> (job_status jm = Pending \<and> j' = jm\<lparr>job_status := Processing\<rparr>)"
    by auto
  from settle_jobs [OF inv w jm] obtain j where j: "j \<in> set (queue q)"
    and jm': "jm = j \<or> (job_status j = Processing \<and> jm = f j)"
    by auto
  from jm' have "job_ref j' = job_ref j \<and> job_id j' = job_id j \<and>
      moveForward (job_status j) (job_status j')"
  proof
    assume "jm = j"
    with j' show ?thesis
      by (auto simp: moveForward_def)
  next
    assume a: "job_status j = Processing \<and> jm = f j"
    with f(3) [of j] have "job_status jm \<noteq> Pending"
      by auto
    with j' have "j' = f j"
      using a by simp
    with a f [of j] show ?thesis
      by (auto simp: moveForward_def)
  qed
  with j show ?thesis by blast
qed

lemma step_jobs:
  assumes inv: "queueInv (fst s)" and m: "j' \<in> set (queue (fst (step s e)))"
  shows "(\<exists>j\<in>set (queue (fst s)). job_ref j' = job_ref j \<and> job_id j' = job_id j \<and>
            moveForward (job_status j) (job_status j')) \<or>
         (job_ref j' = nextRef (fst s) \<and> returnedIds [e] = [job_id j'])"
proof -
  obtain q db where s: "s = (q, db)"
    by (cases s)
  have same: "j' \<in> set (queue q) \<Longrightarrow> ?thesis"
    unfolding s by (auto simp: moveForward_def)
  show ?thesis
  proof (cases e)
    case (Enqueue d p m now)
    with m s have "j' \<in> set (queue (fst (addJob d p m now q)))"
      by simp
    moreover from inv s have "queueInv q"
      by simp
    ultimately have "(\<exists>j\<in>set (queue q). job_ref j' = job_ref j \<and> job_id j' = job_id j \<and>
            moveForward (job_status j) (job_status j')) \<or>
         (job_ref j' = nextRef q \<and> job_id j' = (d, now))"
      by (intro addJob_jobs)
    moreover have "returnedIds [e] = [(d, now)]"
      by (simp add: Enqueue)
    ultimately show ?thesis
      unfolding s by auto
  next
    case (ExtractSettled ext now)
    show ?thesis
    proof (cases "worker q")
      case (AwaitExtract r)
      with inv s have w: "workerOn (queue q) r"
        by (simp add: queueInv_def)
      show ?thesis
      proof (cases "jobByRef q r")
        case None
        with AwaitExtract ExtractSettled m s same show ?thesis
          by (simp add: extractSettled_def)
      next
        case (Some job)
        show ?thesis
        proof (cases "extractTextAdvanced ext (job_filePath job) (job_mimeType job)")
          case (Inl err)
          with AwaitExtract ExtractSettled Some m s
          have "j' \<in> set (queue (loopHead now (q\<lparr>queue := setJob r
                  (\<lambda>j. j\<lparr>job_status := Failed, job_error := Some (jobErrorMessage err),
                         job_processedAt := Some now\<rparr>) (queue q)\<rparr>)))"
            by (simp add: extractSettled_def)
          with inv s w have "\<exists>j\<in>set (queue q). job_ref j' = job_ref j \<and> job_id j' = job_id j \<and>
              moveForward (job_status j) (job_status j')"
            by (intro settle_loop_jobs) simp_all
          with s show ?thesis by simp
        next
          case (Inr extracted)
          with AwaitExtract ExtractSettled Some m s same show ?thesis
            by (simp add: extractSettled_def)
        qed
      qed
    next
      case Idle
      with ExtractSettled m s same show ?thesis
        by (simp add: extractSettled_def)
    next
      case (AwaitUpdate r extracted called)
      with ExtractSettled m s same show ?thesis
        by (simp add: extractSettled_def)
    qed
  next
    case (UpdateSettled now)
    show ?thesis
    proof (cases "worker q")
      case (AwaitUpdate r extracted called)
      with inv s have w: "workerOn (queue q) r"
        by (simp add: queueInv_def)
      show ?thesis
      proof (cases "jobByRef q r")
        case None
        with AwaitUpdate UpdateSettled m s same show ?thesis
          by (simp add: updateSettled_def)
      next
        case (Some job)
        with AwaitUpdate UpdateSettled m s
        have "j' \<in> set (queue (loopHead now (q\<lparr>queue := setJob r
                (\<lambda>j. j\<lparr>job_status := Completed, job_processedAt := Some now\<rparr>) (queue q)\<rparr>)))"
          by (simp add: updateSettled_def)
        with inv s w have "\<exists>j\<in>set (queue q). job_ref j' = job_ref j \<and> job_id j' = job_id j \<and>
            moveForward (job_status j) (job_status j')"
          by (intro settle_loop_jobs) simp_all
        with s show ?thesis by simp
      qed
    next
      case Idle
      with UpdateSettled m s same show ?thesis
        by (simp add: updateSettled_def)
    next
      case (AwaitExtract r)
      with UpdateSettled m s same show ?thesis
        by (simp add: updateSettled_def)
    qed
  next
    case (UpdateRejected err now)
    show ?thesis
    proof (cases "worker q")
      case (AwaitUpdate r extracted called)
      with inv s have w: "workerOn (queue q) r"
        by (simp add: queueInv_def)
      show ?thesis
      proof (cases "jobByRef q r")
        case None
        with AwaitUpdate UpdateRejected m s same show ?thesis
          by (simp add: updateRejected_def)
      next
        case (Some job)
        with AwaitUpdate UpdateRejected m s
        have "j' \<in> set (queue (loopHead now (q\<lparr>queue := setJob r
                (\<lambda>j. j\<lparr>job_status := Failed, job_error := Some (jobErrorMessage err),
                       job_processedAt := Some now\<rparr>) (queue q)\<rparr>)))"
          by (simp add: updateRejected_def)
        with inv s w have "\<exists>j\<in>set (queue q). job_ref j' = job_ref j \<and> job_id j' = job_id j \<and>
            moveForward (job_status j) (job_status j')"
          by (intro settle_loop_jobs) simp_all
        with s show ?thesis by simp
      qed
    next
      case Idle
      with UpdateRejected m s same show ?thesis
        by (simp add: updateRejected_def)
    next
      case (AwaitExtract r)
      with UpdateRejected m s same show ?thesis
        by (simp add: updateRejected_def)
    qed
  qed
qed

text \<open>A job that is not finished stays in the queue over a step.\<close>

lemma settle_keeps:
  assumes j: "j \<in> set (queue q)" and st: "job_status j = Pending \<or> job_status j = Processing"
    and f: "\<And>j. job_ref (f j) = job_ref j" "\<And>j. job_processedAt (f j) = Some now"
  shows "jobPresent (job_ref j) (loopHead now (q\<lparr>queue := setJob r f (queue q)\<rparr>))"
proof -
  let ?jm = "if job_ref j = r then f j else j"
  from j have "?jm \<in> set (queue (q\<lparr>queue := setJob r f (queue q)\<rparr>))"
    by (auto simp: setJob_def)
  moreover from st have "retained now ?jm"
    by (auto simp: retained_def f)
  ultimately have "jobPresent (job_ref ?jm) (loopHead now (q\<lparr>queue := setJob r f (queue q)\<rparr>))"
    by (rule loopHead_keeps)
  then show ?thesis
    by (simp add: f split: if_splits)
qed

lemma addJob_keeps:
  assumes "j \<in> set (queue q)" and "job_status j = Pending \<or> job_status j = Processing"
  shows "jobPresent (job_ref j) (fst (addJob d p m now q))"
proof -
  let ?job = "\<lparr>job_ref = nextRef q, job_id = (d, now), job_documentId = d,
                 job_filePath = p, job_mimeType = m, job_status = Pending,
                 job_createdAt = now, job_processedAt = None, job_error = None\<rparr>"
  let ?q1 = "q\<lparr>queue := queue q @ [?job], nextRef := Suc (nextRef q), processing := True\<rparr>"
  from assms have "j \<in> set (queue ?q1)" and "retained now j"
    by (auto simp: retained_def)
  then have "jobPresent (job_ref j) (loopHead now ?q1)"
    by (rule loopHead_keeps)
  moreover from assms(1) have "jobPresent (job_ref j) (q\<lparr>queue := queue q @ [?job], nextRef := Suc (nextRef q)\<rparr>)"
    by (auto simp: jobPresent_def)
  ultimately show ?thesis
    by (simp add: addJob_def processQueue_def Let_def)
qed

lemma addJob_new: "jobPresent (nextRef q) (fst (addJob d p m now q))"
proof -
  let ?job = "\<lparr>job_ref = nextRef q, job_id = (d, now), job_documentId = d,
                 job_filePath = p, job_mimeType = m, job_status = Pending,
                 job_createdAt = now, job_processedAt = None, job_error = None\<rparr>"
  let ?q1 = "q\<lparr>queue := queue q @ [?job], nextRef := Suc (nextRef q), processing := True\<rparr>"
  have "?job \<in> set (queue ?q1)" and "retained now ?job"
    by (simp_all add: retained_def)
  then have "jobPresent (job_ref ?job) (loopHead now ?q1)"
    by (rule loopHead_keeps)
  moreover have "jobPresent (job_ref ?job) (q\<lparr>queue := queue q @ [?job], nextRef := Suc (nextRef q)\<rparr>)"
    by (simp add: jobPresent_def)
  ultimately show ?thesis
    by (simp add: addJob_def processQueue_def Let_def)
qed

lemma jobPresent_worker: "jobPresent r (q\<lparr>worker := w\<rparr>) = jobPresent r q"
  by (simp add: jobPresent_def)

lemma returnedIds_single: "length (returnedIds [e]) \<le> 1"
  by (cases e) simp_all

lemma step_keeps:
  assumes j: "j \<in> set (queue (fst s))"
    and st: "job_status j = Pending \<or> job_status j = Processing"
  shows "jobPresent (job_ref j) (fst (step s e))"
proof -
  obtain q db where s: "s = (q, db)"
    by (cases s)
  from j s have jq: "j \<in> set (queue q)"
    by simp
  then have same: "jobPresent (job_ref j) q"
    by (auto simp: jobPresent_def)
  show ?thesis
  proof (cases e)
    case (Enqueue d p m now)
    with s jq st show ?thesis
      by (simp add: addJob_keeps)
  next
    case (ExtractSettled ext now)
    have "jobPresent (job_ref j) (extractSettled ext now q)"
      using same jq st
      by (simp add: extractSettled_def settle_keeps jobPresent_worker
          split: worker.splits option.splits sum.splits)
    with s ExtractSettled show ?thesis by simp
  next
    case (UpdateSettled now)
    have "jobPresent (job_ref j) (fst (updateSettled now (q, db)))"
      using same jq st
      by (simp add: updateSettled_def settle_keeps split: worker.splits option.splits)
    with s UpdateSettled show ?thesis by simp
  next
    case (UpdateRejected err now)
    have "jobPresent (job_ref j) (updateRejected err now q)"
      using same jq st
      by (simp add: updateRejected_def settle_keeps split: worker.splits option.splits)
    with s UpdateRejected show ?thesis by simp
  qed
qed

lemma step_new:
  "returnedIds [e] \<noteq> [] \<Longrightarrow> jobPresent (nextRef (fst s)) (fst (step s e))"
  by (cases s; cases e) (simp_all add: addJob_new)

lemma run_snoc: "run s (evs @ [e]) = step (run s evs) e"
  by (simp add: run_def)

text \<open>
  The records of a run are those of its enqueue calls: the call number \<open>r\<close> made the job
  with reference \<open>r\<close>, and the id of that job is the id the call returned.
\<close>

lemma run_ids:
  "nextRef (fst (run (emptyQueue, db) evs)) = length (returnedIds evs) \<and>
   (\<forall>j\<in>set (queue (fst (run (emptyQueue, db) evs))). job_id j = returnedIds evs ! job_ref j)"
proof (induction evs rule: rev_induct)
  case Nil
  show ?case by (simp add: run_def emptyQueue_def)
next
  case (snoc e evs)
  let ?s = "run (emptyQueue, db) evs"
  have inv: "queueInv (fst ?s)"
    by (rule queueInv_reachable)
  from snoc have n: "nextRef (fst ?s) = length (returnedIds evs)"
    and ids: "\<forall>j\<in>set (queue (fst ?s)). job_id j = returnedIds evs ! job_ref j"
    by simp_all
  have "nextRef (fst (step ?s e)) = length (returnedIds (evs @ [e]))"
    by (simp add: nextRef_step n returnedIds_append)
  moreover have "job_id j' = returnedIds (evs @ [e]) ! job_ref j'"
    if m: "j' \<in> set (queue (fst (step ?s e)))" for j'
    using step_jobs [OF inv m]
  proof
    assume "\<exists>j\<in>set (queue (fst ?s)). job_ref j' = job_ref j \<and> job_id j' = job_id j \<and>
              moveForward (job_status j) (job_status j')"
    then obtain j where j: "j \<in> set (queue (fst ?s))" "job_ref j' = job_ref j"
      "job_id j' = job_id j"
      by blast
    with inv have "job_ref j' < length (returnedIds evs)"
      by (simp add: queueInv_def n [symmetric])
    with j ids show ?thesis
      by (simp add: returnedIds_append nth_append)
  next
    assume "job_ref j' = nextRef (fst ?s) \<and> returnedIds [e] = [job_id j']"
    with n show ?thesis
      by (simp add: returnedIds_append)
  qed
  ultimately show ?case
    by (simp add: run_snoc)
qed

text \<open>A job that was made is in the queue, or was seen finished at some earlier point.\<close>

lemma run_present_or_finished:
  "r < nextRef (fst (run (emptyQueue, db) evs)) \<Longrightarrow>
   jobPresent r (fst (run (emptyQueue, db) evs)) \<or>
   (\<exists>k\<le>length evs. jobFinished r (fst (run (emptyQueue, db) (take k evs))))"
proof (induction evs rule: rev_induct)
  case Nil
  then show ?case by (simp add: run_def emptyQueue_def)
next
  case (snoc e evs)
  let ?s = "run (emptyQueue, db) evs"
  let ?goal = "jobPresent r (fst (run (emptyQueue, db) (evs @ [e]))) \<or>
     (\<exists>k\<le>length (evs @ [e]). jobFinished r (fst (run (emptyQueue, db) (take k (evs @ [e])))))"
  have earlier: ?goal if "k \<le> length evs"
    and "jobFinished r (fst (run (emptyQueue, db) (take k evs)))" for k
  proof -
    from that have "k \<le> length (evs @ [e])"
      and "jobFinished r (fst (run (emptyQueue, db) (take k (evs @ [e]))))"
      by simp_all
    then show ?thesis by blast
  qed
  show ?case
  proof (cases "r < nextRef (fst ?s)")
    case True
    with snoc.IH consider "jobPresent r (fst ?s)"
      | k where "k \<le> length evs" "jobFinished r (fst (run (emptyQueue, db) (take k evs)))"
      by blast
    then show ?thesis
    proof cases
      case 1
      then obtain j where j: "j \<in> set (queue (fst ?s))" "job_ref j = r"
        by (auto simp: jobPresent_def)
      show ?thesis
      proof (cases "job_status j = Pending \<or> job_status j = Processing")
        case True
        with j have "jobPresent r (fst (step ?s e))"
          using step_keeps by blast
        then show ?thesis
          by (simp add: run_snoc)
      next
        case False
        then have "job_status j = Completed \<or> job_status j = Failed"
          by (cases "job_status j") simp_all
        with j have "jobFinished r (fst (run (emptyQueue, db) (take (length evs) evs)))"
          by (auto simp: jobFinished_def)
        then show ?thesis
          by (intro earlier [of "length evs"]) simp_all
      qed
    next
      case 2
      then show ?thesis by (rule earlier)
    qed
  next
    case False
    with snoc.prems returnedIds_single [of e]
    have "r = nextRef (fst ?s)" and "returnedIds [e] \<noteq> []"
      by (auto simp: run_snoc nextRef_step)
    then have "jobPresent r (fst (step ?s e))"
      by (simp add: step_new)
    then show ?thesis
      by (simp add: run_snoc)
  qed
qed

lemma find_id_some:
  "j \<in> set jobs \<Longrightarrow> \<exists>j'. find (\<lambda>x. job_id x = job_id j) jobs = Some j' \<and> job_id j' = job_id j"
  by (induction jobs) auto

lemma find_id_unique:
  "j \<in> set jobs \<Longrightarrow> \<forall>x\<in>set jobs. job_id x = job_id j \<longrightarrow> x = j \<Longrightarrow>
   find (\<lambda>x. job_id x = job_id j) jobs = Some j"
  by (induction jobs) auto

lemma step_forward:
  assumes inv: "queueInv q" and j: "j \<in> set (queue q)"
    and j': "j' \<in> set (queue (fst (step (q, db) e)))" and r: "job_ref j' = job_ref j"
  shows "job_id j' = job_id j \<and> moveForward (job_status j) (job_status j')"
proof -
  from inv j' have "(\<exists>k\<in>set (queue q). job_ref j' = job_ref k \<and> job_id j' = job_id k \<and>
            moveForward (job_status k) (job_status j')) \<or>
         (job_ref j' = nextRef q \<and> returnedIds [e] = [job_id j'])"
    using step_jobs [of "(q, db)" j' e] by simp
  then show ?thesis
  proof
    assume "\<exists>k\<in>set (queue q). job_ref j' = job_ref k \<and> job_id j' = job_id k \<and>
            moveForward (job_status k) (job_status j')"
    then obtain k where k: "k \<in> set (queue q)" "job_ref j' = job_ref k"
      "job_id j' = job_id k" "moveForward (job_status k) (job_status j')"
      by blast
    from inv have "distinct (map job_ref (queue q))"
      by (simp add: queueInv_def)
    from this k(1) j have "k = j"
      by (rule distinct_refs_eq) (use k r in simp)
    with k show ?thesis by simp
  next
    assume "job_ref j' = nextRef q \<and> returnedIds [e] = [job_id j']"
    moreover from inv j have "job_ref j < nextRef q"
      by (simp add: queueInv_def)
    ultimately show ?thesis
      using r by simp
  qed
qed

lemma laterStatus_step: "laterStatus a b \<Longrightarrow> moveForward b c \<Longrightarrow> laterStatus a c"
  by (auto simp: laterStatus_def moveForward_def)

lemma nextRef_run: "nextRef (fst s) \<le> nextRef (fst (run s evs))"
proof (induction evs rule: rev_induct)
  case Nil
  show ?case by (simp add: run_def)
next
  case (snoc e evs)
  then show ?case by (simp add: run_snoc nextRef_step)
qed

lemma run_forward:
  assumes inv: "queueInv (fst s)" and j: "j \<in> set (queue (fst s))"
  shows "j' \<in> set (queue (fst (run s evs))) \<Longrightarrow> job_ref j' = job_ref j \<Longrightarrow>
         job_id j' = job_id j \<and> laterStatus (job_status j) (job_status j')"
proof (induction evs arbitrary: j' rule: rev_induct)
  case Nil
  with inv j have "j' = j"
    by (intro distinct_refs_eq [of "queue (fst s)"]) (simp_all add: run_def queueInv_def)
  then show ?case by (simp add: laterStatus_def)
next
  case (snoc e evs)
  let ?t = "run s evs"
  from inv have invt: "queueInv (fst ?t)"
    by (rule queueInv_run)
  from snoc.prems(1) have m: "j' \<in> set (queue (fst (step ?t e)))"
    by (simp add: run_snoc)
  from step_jobs [OF invt m] show ?case
  proof
    assume "\<exists>k\<in>set (queue (fst ?t)). job_ref j' = job_ref k \<and> job_id j' = job_id k \<and>
              moveForward (job_status k) (job_status j')"
    then obtain k where k: "k \<in> set (queue (fst ?t))" "job_ref j' = job_ref k"
      "job_id j' = job_id k" "moveForward (job_status k) (job_status j')"
      by blast
    with snoc.prems(2) have "job_ref k = job_ref j"
      by simp
    with k(1) have "job_id k = job_id j \<and> laterStatus (job_status j) (job_status k)"
      by (rule snoc.IH)
    with k show ?thesis
      by (auto intro: laterStatus_step)
  next
    assume "job_ref j' = nextRef (fst ?t) \<and> returnedIds [e] = [job_id j']"
    moreover from inv j have "job_ref j < nextRef (fst s)"
      by (simp add: queueInv_def)
    moreover have "nextRef (fst s) \<le> nextRef (fst ?t)"
      by (rule nextRef_run)
    ultimately show ?thesis
      using snoc.prems(2) by simp
  qed
qed

text \<open>
  The job records over a run. After any sequence of events with \<open>N\<close> enqueue calls,
  \<open>N\<close> job records have been made, one per call, each with the id its call returned.
  Each record is in the queue, or was in the queue as completed or failed at some
  earlier point (only the clean-up removes records, and pending or processing ones
  never). A status query with the id of a record of the queue returns a record with
  that id, and it is the record itself as long as the ids returned so far are distinct.
  Over a step a record keeps its id, and its status stays or moves forward: pending to
  processing, processing to completed or failed; over any further events its status is
  the same or one further along, never an earlier one.
\<close>

lemma job_records:
  assumes "q = fst (run (emptyQueue, db) evs)" and "ids = returnedIds evs"
  shows "nextRef q = length ids \<and> distinct (map job_ref (queue q)) \<and>
         (\<forall>j\<in>set (queue q). job_ref j < length ids \<and> job_id j = ids ! job_ref j) \<and>
         (\<forall>r<length ids. jobPresent r q \<or>
            (\<exists>k\<le>length evs. jobFinished r (fst (run (emptyQueue, db) (take k evs))))) \<and>
         (\<forall>j\<in>set (queue q). \<exists>j'. getJobStatus q (job_id j) = Some j' \<and> job_id j' = job_id j) \<and>
         (distinct ids \<longrightarrow> (\<forall>j\<in>set (queue q). getJobStatus q (job_id j) = Some j)) \<and>
         (\<forall>d p m now. returnedIds (evs @ [Enqueue d p m now]) = ids @ [snd (addJob d p m now q)]) \<and>
         (\<forall>e db'. \<forall>j\<in>set (queue q). \<forall>j'\<in>set (queue (fst (step (q, db') e))).
            job_ref j' = job_ref j \<longrightarrow>
            job_id j' = job_id j \<and> moveForward (job_status j) (job_status j')) \<and>
         (\<forall>evs' db'. \<forall>j\<in>set (queue q). \<forall>j'\<in>set (queue (fst (run (q, db') evs'))).
            job_ref j' = job_ref j \<longrightarrow>
            job_id j' = job_id j \<and> laterStatus (job_status j) (job_status j'))"
proof -
  from assms(1) have inv: "queueInv q"
    by (simp add: queueInv_reachable)
  then have dist: "distinct (map job_ref (queue q))"
    and bound: "\<forall>j\<in>set (queue q). job_ref j < nextRef q"
    by (simp_all add: queueInv_def)
  from assms have n: "nextRef q = length ids"
    and idx: "\<forall>j\<in>set (queue q). job_id j = ids ! job_ref j"
    using run_ids [of db evs] by simp_all
  from bound n idx
  have c3: "\<forall>j\<in>set (queue q). job_ref j < length ids \<and> job_id j = ids ! job_ref j"
    by simp
  have c4: "\<forall>r<length ids. jobPresent r q \<or>
            (\<exists>k\<le>length evs. jobFinished r (fst (run (emptyQueue, db) (take k evs))))"
    using run_present_or_finished [of _ db evs] n assms(1) by simp
  have c5: "\<forall>j\<in>set (queue q). \<exists>j'. getJobStatus q (job_id j) = Some j' \<and> job_id j' = job_id j"
    by (simp add: getJobStatus_def find_id_some)
  have c6: "distinct ids \<longrightarrow> (\<forall>j\<in>set (queue q). getJobStatus q (job_id j) = Some j)"
  proof (intro impI ballI)
    fix j
    assume di: "distinct ids" and j: "j \<in> set (queue q)"
    have "\<forall>x\<in>set (queue q). job_id x = job_id j \<longrightarrow> x = j"
    proof (intro ballI impI)
      fix x
      assume x: "x \<in> set (queue q)" and e: "job_id x = job_id j"
      with j c3 have "ids ! job_ref x = ids ! job_ref j"
        and "job_ref x < length ids" and "job_ref j < length ids"
        by auto
      with di have "job_ref x = job_ref j"
        by (simp add: nth_eq_iff_index_eq)
      with dist x j show "x = j"
        by (rule distinct_refs_eq)
    qed
    with j show "getJobStatus q (job_id j) = Some j"
      unfolding getJobStatus_def by (rule find_id_unique)
  qed
  have c7: "\<forall>d p m now. returnedIds (evs @ [Enqueue d p m now]) = ids @ [snd (addJob d p m now q)]"
    by (simp add: returnedIds_append assms(2) addJob_id)
  have c8: "\<forall>e db'. \<forall>j\<in>set (queue q). \<forall>j'\<in>set (queue (fst (step (q, db') e))).
            job_ref j' = job_ref j \<longrightarrow>
            job_id j' = job_id j \<and> moveForward (job_status j) (job_status j')"
    using step_forward [OF inv] by blast
  have c9: "\<forall>evs' db'. \<forall>j\<in>set (queue q). \<forall>j'\<in>set (queue (fst (run (q, db') evs'))).
            job_ref j' = job_ref j \<longrightarrow>
            job_id j' = job_id j \<and> laterStatus (job_status j) (job_status j')"
  proof (intro allI ballI impI)
    fix evs' db' j j'
    assume "j \<in> set (queue q)" and "j' \<in> set (queue (fst (run (q, db') evs')))"
      and "job_ref j' = job_ref j"
    with inv show "job_id j' = job_id j \<and> laterStatus (job_status j) (job_status j')"
      using run_forward [of "(q, db')" j j' evs'] by simp
  qed
  from n dist c3 c4 c5 c6 c7 c8 c9 show ?thesis
    by blast
qed

lemma run_two_jobs:
  "fst (run (emptyQueue, emptyDatabase)
     [Enqueue 1 (js ''uploads/1-a.docx'') docxMime 5,
      Enqueue 2 (js ''uploads/2-b.jpg'') jpegMime 6]) = twoJobs"
  by (simp add: run_def addJob_def processQueue_def loopHead_def setJob_def emptyQueue_def
      docxJob_def jpegJob_def twoJobs_def Let_def)

lemma job_records_example:
  "nextRef twoJobs = 2 \<and> getJobStatus twoJobs (2, 6) = Some jpegJob \<and>
   moveForward Pending (job_status jpegJob) \<and>
   jobPresent 1 twoJobs"
proof -
  let ?evs = "[Enqueue 1 (js ''uploads/1-a.docx'') docxMime 5,
      Enqueue 2 (js ''uploads/2-b.jpg'') jpegMime 6]"
  note r = job_records [OF run_two_jobs [symmetric] refl]
  have ids: "returnedIds ?evs = [(1, 5), (2, 6)]"
    by simp
  have mem: "jpegJob \<in> set (queue twoJobs)"
    by (simp add: twoJobs_def)
  have "nextRef twoJobs = 2"
    using r ids by simp
  moreover have "distinct (returnedIds ?evs)"
    by simp
  with r mem have "getJobStatus twoJobs (job_id jpegJob) = Some jpegJob"
    by blast
  moreover have "moveForward Pending (job_status jpegJob)"
    by (simp add: jpegJob_def moveForward_def)
  moreover have "jobPresent 1 twoJobs"
    by (simp add: jobPresent_def twoJobs_def jpegJob_def)
  moreover have "job_id jpegJob = (2, 6)"
    by (simp add: jpegJob_def)
  ultimately show ?thesis
    by simp
qed

text \<open>
  Claim C4. The job id is meant to tell the jobs apart: \<open>addJob\<close> appends the reading of
  the clock to the document id, and \<open>getJobStatus\<close> looks a job up by that id. The
  reading has the resolution of a millisecond, so the code misses what it attempts when
  one document is enqueued twice at one reading (two reprocess requests within a
  millisecond): both calls return the id \<open>(1, 5)\<close>, two records are in the queue, and the
  status query with the returned id gives the first of them. The second record, still
  pending, is returned by no status query at all.
\<close>

theorem job_records_collision:
  "returnedIds [Enqueue 1 (js ''uploads/1-a.jpg'') jpegMime 5,
      Enqueue 1 (js ''uploads/1-a.jpg'') jpegMime 5] = [(1, 5), (1, 5)] \<and>
   queue (fst (run (emptyQueue, emptyDatabase)
     [Enqueue 1 (js ''uploads/1-a.jpg'') jpegMime 5,
      Enqueue 1 (js ''uploads/1-a.jpg'') jpegMime 5])) = [firstJob, secondJob] \<and>
   snd (addJob 1 (js ''uploads/1-a.jpg'') jpegMime 5
     (fst (run (emptyQueue, emptyDatabase) [Enqueue 1 (js ''uploads/1-a.jpg'') jpegMime 5]))) =
     job_id secondJob \<and>
   getJobStatus (fst (run (emptyQueue, emptyDatabase)
     [Enqueue 1 (js ''uploads/1-a.jpg'') jpegMime 5,
      Enqueue 1 (js ''uploads/1-a.jpg'') jpegMime 5])) (job_id secondJob) = Some firstJob \<and>
   firstJob \<noteq> secondJob \<and> job_status secondJob = Pending \<and>
   (\<forall>i. getJobStatus (fst (run (emptyQueue, emptyDatabase)
     [Enqueue 1 (js ''uploads/1-a.jpg'') jpegMime 5,
      Enqueue 1 (js ''uploads/1-a.jpg'') jpegMime 5])) i \<noteq> Some secondJob)"
  by (simp add: run_def addJob_def processQueue_def loopHead_def setJob_def emptyQueue_def
      firstJob_def secondJob_def getJobStatus_def Let_def)

section \<open>Properties of the search\<close>

subsection \<open>The pattern of the free-text query\<close>

lemma likeTokens_percent_end: "likeTokens (s @ [0x25]) \<noteq> None"
proof (induction s rule: likeTokens.induct)
  case 1
  show ?case by (simp add: likeToken_def)
next
  case (2 c)
  show ?case by (simp add: likeToken_def)
next
  case (3 c d cs)
  then show ?case by (cases "c = 0x5C") simp_all
qed

lemma likeTokens_wrapped: "likeTokens ([0x25] @ q @ [0x25]) \<noteq> None"
  using likeTokens_percent_end [of "0x25 # q"] by simp

lemma likeTokens_plain: "0x5C \<notin> set s \<Longrightarrow> likeTokens s = Some (map likeToken s)"
  by (induction s rule: likeTokens.induct) auto

lemma likeToken_literal: "c \<noteq> 0x25 \<Longrightarrow> c \<noteq> 0x5F \<Longrightarrow> likeToken c = Lit c"
  by (simp add: likeToken_def)

lemma likeTokens_literal:
  assumes "0x25 \<notin> set q" and "0x5F \<notin> set q" and "0x5C \<notin> set q"
  shows "likeTokens ([0x25] @ q @ [0x25]) = Some (AnySeq # map Lit q @ [AnySeq])"
proof -
  from assms(3) have "0x5C \<notin> set ([0x25] @ q @ [0x25])"
    by simp
  then have "likeTokens ([0x25] @ q @ [0x25]) = Some (map likeToken ([0x25] @ q @ [0x25]))"
    by (rule likeTokens_plain)
  moreover from assms(1,2) have "map likeToken q = map Lit q"
    by (induction q) (auto simp: likeToken_literal)
  ultimately show ?thesis
    by (simp add: likeToken_def)
qed

lemma likeMatch_AnySeq_only: "likeMatch lower [AnySeq] s"
  by (induction s) simp_all

lemma likeMatch_prefix:
  "likeMatch lower (map Lit q @ [AnySeq]) s = startsWith (map lower s) (map lower q)"
proof (induction q arbitrary: s)
  case Nil
  show ?case by (simp add: likeMatch_AnySeq_only startsWith_def)
next
  case (Cons x xs)
  show ?case
  proof (cases s)
    case Nil
    then show ?thesis by (simp add: startsWith_def)
  next
    case (Cons c cs)
    with Cons.IH [of cs] show ?thesis
      by (auto simp: startsWith_def)
  qed
qed

lemma likeMatch_contains:
  "likeMatch lower (AnySeq # map Lit q @ [AnySeq]) s = includesStr (map lower s) (map lower q)"
proof (induction s)
  case Nil
  have "likeMatch lower (map Lit q @ [AnySeq]) [] = startsWith (map lower []) (map lower q)"
    by (rule likeMatch_prefix)
  then show ?case by (auto simp: startsWith_def)
next
  case (Cons c cs)
  have "likeMatch lower (map Lit q @ [AnySeq]) (c # cs) =
        startsWith (map lower (c # cs)) (map lower q)"
    by (rule likeMatch_prefix)
  with Cons show ?case by simp
qed

lemma ilikeContains_literal:
  assumes "0x25 \<notin> set q" and "0x5F \<notin> set q" and "0x5C \<notin> set q"
  shows "ilikeContains lower q (Some t) = Inr (Some (containsIgnoringCase lower t q))"
  using likeTokens_literal [OF assms]
  by (simp add: ilikeContains_def containsIgnoringCase_def likeMatch_contains)

subsection \<open>The conditions of the \<open>WHERE\<close> clause\<close>

lemma sqlAnd_true: "sqlAnd a b = Some True \<longleftrightarrow> a = Some True \<and> b = Some True"
  by (cases "(a, b)" rule: sqlAnd.cases) simp_all

lemma sqlOr_true: "sqlOr a b = Some True \<longleftrightarrow> a = Some True \<or> b = Some True"
  by (cases "(a, b)" rule: sqlOr.cases) simp_all

lemma selectedRow_all: "selectedRow conds row \<longleftrightarrow> (\<forall>c\<in>set conds. c row = Some True)"
proof -
  have "foldr (\<lambda>c acc. sqlAnd (c row) acc) conds (Some True) = Some True \<longleftrightarrow>
        (\<forall>c\<in>set conds. c row = Some True)"
    by (induction conds) (simp_all add: sqlAnd_true)
  then show ?thesis
    by (auto simp: selectedRow_def)
qed

lemma firstError_append:
  "firstError (xs @ ys) = None \<longleftrightarrow> firstError xs = None \<and> firstError ys = None"
  by (induction xs rule: firstError.induct) simp_all

lemma conditionsOf_append: "conditionsOf (xs @ ys) = conditionsOf xs @ conditionsOf ys"
  by (induction xs rule: conditionsOf.induct) simp_all

lemma likeColumn_true:
  "likeTokens ([0x25] @ q @ [0x25]) = Some ts \<Longrightarrow>
   (ilikeContains lower q column = Inr (Some True)) = (map_option (likeMatch lower ts) column = Some True)"
  by (cases column) (simp_all add: ilikeContains_def)

lemma queryCondition_true:
  "(\<forall>c\<in>set (conditionsOf (queryCondition env p)). c row = Some True) =
   (provided (sp_query p) \<longrightarrow> matchesQuery env (the (sp_query p)) row)"
proof (cases "provided (sp_query p)")
  case False
  then show ?thesis by (simp add: queryCondition_def)
next
  case True
  obtain ts where ts: "likeTokens ([0x25] @ the (sp_query p) @ [0x25]) = Some ts"
    using likeTokens_wrapped by blast
  have "ilikeContains (lowerCase env) (the (sp_query p)) (Some (title row)) = Inr (Some True) =
        likeMatch (lowerCase env) ts (title row)"
    using likeColumn_true [OF ts, of "lowerCase env" "Some (title row)"] by simp
  with True ts show ?thesis
    by (simp add: queryCondition_def matchesQuery_def sqlOr_true likeColumn_true [OF ts])
qed

lemma categoryCondition_true: "(sqlEq (Some (category row)) c = Some True) = (category row = c)"
  by (simp add: sqlEq_def)

lemma departmentCondition_true:
  "(sqlEq (department row) c = Some True) = (department row = Some c)"
  by (cases "department row") (simp_all add: sqlEq_def)

lemma dateFromCondition_true:
  "(sqlGte (documentDate row) b = Some True) = (\<exists>t. documentDate row = Some t \<and> b \<le> t)"
  by (cases "documentDate row") (simp_all add: sqlGte_def)

lemma dateToCondition_true:
  "(sqlLte (documentDate row) b = Some True) = (\<exists>t. documentDate row = Some t \<and> t \<le> b)"
  by (cases "documentDate row") (simp_all add: sqlLte_def)

lemma categoryCondition_all:
  "(\<forall>c\<in>set (conditionsOf (categoryCondition p)). c row = Some True) =
   (provided (sp_category p) \<longrightarrow> category row = the (sp_category p))"
  by (simp add: categoryCondition_def categoryCondition_true)

lemma departmentCondition_all:
  "(\<forall>c\<in>set (conditionsOf (departmentCondition p)). c row = Some True) =
   (provided (sp_department p) \<longrightarrow> department row = Some (the (sp_department p)))"
  by (simp add: departmentCondition_def departmentCondition_true)

lemma dateFromCondition_all:
  assumes "firstError (dateFromCondition env p) = None"
  shows "(\<forall>c\<in>set (conditionsOf (dateFromCondition env p)). c row = Some True) =
         (provided (sp_dateFrom p) \<longrightarrow>
            (\<exists>t b. documentDate row = Some t \<and> newDate env (the (sp_dateFrom p)) = Some b \<and> b \<le> t))"
proof (cases "provided (sp_dateFrom p)")
  case False
  then show ?thesis by (simp add: dateFromCondition_def)
next
  case True
  with assms obtain b where "newDate env (the (sp_dateFrom p)) = Some b"
    by (cases "newDate env (the (sp_dateFrom p))") (simp_all add: dateFromCondition_def)
  with True show ?thesis
    by (simp add: dateFromCondition_def dateFromCondition_true)
qed

lemma dateToCondition_all:
  assumes "firstError (dateToCondition env p) = None"
  shows "(\<forall>c\<in>set (conditionsOf (dateToCondition env p)). c row = Some True) =
         (provided (sp_dateTo p) \<longrightarrow>
            (\<exists>t b. documentDate row = Some t \<and> newDate env (the (sp_dateTo p)) = Some b \<and> t \<le> b))"
proof (cases "provided (sp_dateTo p)")
  case False
  then show ?thesis by (simp add: dateToCondition_def)
next
  case True
  with assms obtain b where "newDate env (the (sp_dateTo p)) = Some b"
    by (cases "newDate env (the (sp_dateTo p))") (simp_all add: dateToCondition_def)
  with True show ?thesis
    by (simp add: dateToCondition_def dateToCondition_true)
qed

lemma where_satisfies:
  assumes "firstError (whereConditions env p) = None"
  shows "(\<forall>c\<in>set (conditionsOf (whereConditions env p)). c row = Some True) =
         satisfiesFilters env p row"
proof -
  from assms have "firstError (dateFromCondition env p) = None"
    and "firstError (dateToCondition env p) = None"
    by (simp_all add: whereConditions_def firstError_append)
  then have "(\<forall>c\<in>set (conditionsOf (dateFromCondition env p)). c row = Some True) =
         (provided (sp_dateFrom p) \<longrightarrow>
            (\<exists>t b. documentDate row = Some t \<and> newDate env (the (sp_dateFrom p)) = Some b \<and> b \<le> t))"
    and "(\<forall>c\<in>set (conditionsOf (dateToCondition env p)). c row = Some True) =
         (provided (sp_dateTo p) \<longrightarrow>
            (\<exists>t b. documentDate row = Some t \<and> newDate env (the (sp_dateTo p)) = Some b \<and> t \<le> b))"
    by (simp_all only: dateFromCondition_all dateToCondition_all)
  then show ?thesis
    unfolding whereConditions_def satisfiesFilters_def conditionsOf_append set_append ball_Un
      queryCondition_true categoryCondition_all departmentCondition_all
    by (simp only:)
qed


lemma searchDocuments_result:
  assumes "searchDocuments env p db = Inr (docs, n)"
  shows "firstError (whereConditions env p) = None"
    and "docs = take (nat (sp_limit p)) (drop (nat ((sp_page p - 1) * sp_limit p))
           (sortRows (orderBy env (sp_sortBy p))
             (filter (selectedRow (conditionsOf (whereConditions env p))) (table_rows db))))"
    and "n = length (filter (selectedRow (conditionsOf (whereConditions env p))) (table_rows db))"
  using assms
  by (auto simp: searchDocuments_def Let_def split: option.splits if_splits)

subsection \<open>Sorting\<close>

lemma set_insertBy: "set (insertBy le x xs) = insert x (set xs)"
  by (induction xs) auto

lemma set_sortRows: "set (sortRows le xs) = set xs"
  unfolding sortRows_def by (induction xs) (simp_all add: set_insertBy)










subsection \<open>The two claims about the search\<close>

text \<open>
  Claim C5, as the code has it. The filters that are provided (defined and not empty)
  are combined conjunctively: every returned document is a row of the table that
  satisfies each of them, and the total is the number of rows that do. Category and
  department are equalities, the dates inclusive bounds. The free-text query \<open>q\<close> is
  matched against title, description, subject and extracted text as the \<open>ILIKE\<close> pattern
  \<open>%q%\<close>, one match being enough; that is the case-insensitive substring match when \<open>q\<close>
  has none of the pattern characters \<open>%\<close>, \<open>_\<close> and backslash, which the code passes
  on to the pattern as they are.
\<close>

theorem search_filters:
  assumes "searchDocuments env p db = Inr (docs, n)"
  shows "(\<forall>d\<in>set docs. d \<in> set (table_rows db) \<and> satisfiesFilters env p d) \<and>
         n = length (filter (satisfiesFilters env p) (table_rows db)) \<and>
         (\<forall>q t. 0x25 \<notin> set q \<and> 0x5F \<notin> set q \<and> 0x5C \<notin> set q \<longrightarrow>
            ilikeContains (lowerCase env) q (Some t) =
              Inr (Some (containsIgnoringCase (lowerCase env) t q)))"
proof -
  note r = searchDocuments_result [OF assms]
  have sel: "selectedRow (conditionsOf (whereConditions env p)) row = satisfiesFilters env p row"
    for row
    by (simp only: selectedRow_all where_satisfies [OF r(1)])
  then have f: "filter (selectedRow (conditionsOf (whereConditions env p))) (table_rows db) =
             filter (satisfiesFilters env p) (table_rows db)"
    by (intro filter_cong) simp_all
  have "set docs \<subseteq> set (filter (satisfiesFilters env p) (table_rows db))"
    unfolding r(2) f
    using set_take_subset set_drop_subset set_sortRows by (metis subset_trans)
  then have "\<forall>d\<in>set docs. d \<in> set (table_rows db) \<and> satisfiesFilters env p d"
    by auto
  moreover from r(3) f have "n = length (filter (satisfiesFilters env p) (table_rows db))"
    by simp
  moreover have "\<forall>q t. 0x25 \<notin> set q \<and> 0x5F \<notin> set q \<and> 0x5C \<notin> set q \<longrightarrow>
            ilikeContains (lowerCase env) q (Some t) =
              Inr (Some (containsIgnoringCase (lowerCase env) t q))"
    by (simp add: ilikeContains_literal)
  ultimately show ?thesis by blast
qed

lemmas search_eval =
  searchDocuments_def whereConditions_def queryCondition_def categoryCondition_def
  departmentCondition_def dateFromCondition_def dateToCondition_def provided_def
  selectedRow_def sortRows_def orderBy_def sqlEq_def sqlGte_def sqlLte_def likeToken_def
  asciiLower_def testEnv_def twoRows_def contractRow_def photoRow_def noFilters_def js_def
  Let_def

lemma search_legalContracts:
  "searchDocuments testEnv legalContracts twoRows = Inr ([contractRow], 1)"
  by (simp add: legalContracts_def search_eval)

theorem search_filters_witness:
  "searchDocuments testEnv legalContracts twoRows = Inr ([contractRow], 1) \<and>
   satisfiesFilters testEnv legalContracts contractRow \<and>
   length (filter (satisfiesFilters testEnv legalContracts) (table_rows twoRows)) = 1 \<and>
   ilikeContains asciiLower (js ''lease'') (description contractRow) = Inr (Some True)"
proof -
  note r = search_filters [OF search_legalContracts]
  have plain: "0x25 \<notin> set (js ''lease'') \<and> 0x5F \<notin> set (js ''lease'') \<and> 0x5C \<notin> set (js ''lease'')"
    by (simp add: js_def)
  have d: "description contractRow = Some (js ''Lease'')" and l: "lowerCase testEnv = asciiLower"
    by (simp_all add: contractRow_def testEnv_def)
  have "containsIgnoringCase asciiLower (js ''Lease'') (js ''lease'')"
    by (simp add: containsIgnoringCase_def asciiLower_def js_def startsWith_def)
  with r plain have "ilikeContains asciiLower (js ''lease'') (description contractRow) = Inr (Some True)"
    unfolding d l by simp
  moreover from r have "satisfiesFilters testEnv legalContracts contractRow"
    by simp
  moreover from r have "length (filter (satisfiesFilters testEnv legalContracts) (table_rows twoRows)) = 1"
    by simp
  ultimately show ?thesis
    using search_legalContracts by simp
qed

text \<open>
  The claim as stated fails for a query with a pattern character: the query \<open>a_c\<close>
  returns the document whose title is \<open>abc\<close> and whose other text fields are empty,
  though \<open>a_c\<close> is no substring of \<open>abc\<close>, whatever the case.
\<close>

theorem search_filters_counterexample:
  "searchDocuments testEnv underscoreQuery twoRows = Inr ([photoRow], 1) \<and>
   title photoRow = js ''abc'' \<and> description photoRow = None \<and> subject photoRow = None \<and>
   extractedText photoRow = None \<and>
   \<not> containsIgnoringCase asciiLower (js ''abc'') (js ''a_c'')"
  by (simp add: underscoreQuery_def search_eval containsIgnoringCase_def startsWith_def)





end
